theory Spec2Isabelle
  imports Complex_Main "HOL-Library.Product_Lexorder"
begin

section \<open>Data model (typehints.py, definitions.py)\<close>

text \<open>
  Python's unbounded integers are \<open>int\<close>. A \<open>datetime\<close> is the number of microseconds
  since a fixed epoch (its resolution), so comparison and subtraction are those of \<open>int\<close>.
  \<open>Decimal\<close> and \<open>float\<close> values are exact rationals (\<open>rat\<close>): the model does not round.
  A \<open>Path\<close> is its string. Console output made with \<open>echo\<close> is not part of the model;
  \<open>warning\<close> lines are collected, and \<open>error\<close> (which exits the process) is an error value.
\<close>

type_synonym datetime = int

text \<open>\<open>PhotoMetadata = tuple[Path, datetime, int | None]\<close>: path, date, anchored beat.\<close>

type_synonym photo_metadata = "string \<times> datetime \<times> int option"

datatype media_type = VIDEO | AUDIO | TITLE | CAPTION | PLACEHOLDER | MARKER

datatype placeholder_mode = PM_NONE | PM_TITLE | PM_CAPTIONS | PM_IMAGE | PM_MISSING

datatype time_unit = SECOND | MINUTE | HOUR | DAY | WEEK | MONTH | YEAR

record time_gap =
  amount :: int
  unit :: time_unit
  same_period_mode :: bool

record photo_cluster =
  photos :: "photo_metadata list"
  cluster_start_date :: datetime
  cluster_end_date :: datetime

record time_range =
  tr_start :: rat
  tr_duration :: rat
  start_frame :: int
  duration_frames :: int

text \<open>
  \<open>MediaAsset\<close>: the fields the engines read. The name, the duration and the dimensions
  come from the file and play no part below.
\<close>

record media_asset =
  path :: string
  asset_media_type :: media_type
  uid :: string

record timeline_element =
  asset :: "media_asset option"
  time_range :: time_range
  track :: int
  element_media_type :: media_type

record photo_placement =
  placement_asset :: media_asset
  beat_index :: int
  placement_date :: datetime
  is_anchored :: bool
  cluster_id :: "nat option"

record timeline_project =
  tp_name :: string
  tp_duration :: rat
  frame_rate :: int
  elements :: "timeline_element list"
  photo_placements :: "photo_placement list"
  tp_placeholder_mode :: placeholder_mode

text \<open>
  \<open>error(...)\<close> prints and calls \<open>sys.exit\<close>; an out-of-range list read raises
  \<open>IndexError\<close>. Both end the run and are the error values of the model.
\<close>

datatype error =
    InvalidTimeSpan
  | TooManyPhotos int int
  | TooManyClusters int int
  | IndexError

datatype warning =
    BeatOccupied int string
  | BeatOutsideRange int string
  | NoPhotosInRange

section \<open>Python lists\<close>

text \<open>
  Reading \<open>xs[i]\<close>: a negative index counts from the end, and an index outside
  \<open>[-len, len)\<close> raises \<open>IndexError\<close> (\<open>None\<close> here). Writing \<open>xs[i] = v\<close>
  follows a successful read of the same index in every use below.
\<close>

definition py_get :: "'a list \<Rightarrow> int \<Rightarrow> 'a option" where
  "py_get xs i =
     (let n = int (length xs); j = (if i < 0 then n + i else i)
      in if 0 \<le> j \<and> j < n then Some (xs ! nat j) else None)"

definition py_set :: "'a list \<Rightarrow> int \<Rightarrow> 'a \<Rightarrow> 'a list" where
  "py_set xs i v =
     (let n = int (length xs); j = (if i < 0 then n + i else i)
      in xs[nat j := v])"

text \<open>
  The length of the slice \<open>xs[start:stop]\<close> of a list of length \<open>n\<close>: each bound is
  taken from the end when negative and clamped to \<open>[0, n]\<close>.
\<close>

definition py_slice_bound :: "int \<Rightarrow> int \<Rightarrow> int" where
  "py_slice_bound n i = (if i < 0 then max 0 (n + i) else min n i)"

definition py_slice_len :: "int \<Rightarrow> int \<Rightarrow> int \<Rightarrow> int" where
  "py_slice_len n start stop = max 0 (py_slice_bound n stop - py_slice_bound n start)"

text \<open>\<open>int(x)\<close> of a number truncates towards zero.\<close>

definition py_int :: "rat \<Rightarrow> int" where
  "py_int r = (if 0 \<le> r then \<lfloor>r\<rfloor> else \<lceil>r\<rceil>)"

section \<open>Clustering (core.py)\<close>

definition photo_path :: "photo_metadata \<Rightarrow> string" where
  "photo_path photo = fst photo"

definition photo_date :: "photo_metadata \<Rightarrow> datetime" where
  "photo_date photo = fst (snd photo)"

definition photo_anchor :: "photo_metadata \<Rightarrow> int option" where
  "photo_anchor photo = snd (snd photo)"

text \<open>
  \<open>calculate_time_delta\<close>: the absolute difference in seconds, divided by the length of
  the unit and truncated. The source computes in binary floating point; the quotients here
  are exact (\<open>86400 * 30.44\<close> and \<open>86400 * 365.25\<close> are the floats \<open>2630016.0\<close> and
  \<open>31557600.0\<close>).
\<close>

definition calculate_time_delta :: "datetime \<Rightarrow> datetime \<Rightarrow> time_unit \<Rightarrow> int" where
  "calculate_time_delta date1 date2 u =
     (let delta = (of_int \<bar>date2 - date1\<bar> / 1000000 :: rat)
      in case u of
           SECOND \<Rightarrow> py_int delta
         | MINUTE \<Rightarrow> py_int (delta / 60)
         | HOUR \<Rightarrow> py_int (delta / 3600)
         | DAY \<Rightarrow> py_int (delta / 86400)
         | WEEK \<Rightarrow> py_int (delta / (86400 * 7))
         | MONTH \<Rightarrow> py_int (delta / 2630016)
         | YEAR \<Rightarrow> py_int (delta / 31557600))"

text \<open>
  \<open>PhotoCluster(photos, min(dates), max(dates))\<close>; the source builds a cluster from a
  non-empty list only.
\<close>

definition make_cluster :: "photo_metadata list \<Rightarrow> photo_cluster" where
  "make_cluster ps =
     \<lparr> photos = ps,
       cluster_start_date = Min (set (map photo_date ps)),
       cluster_end_date = Max (set (map photo_date ps)) \<rparr>"

text \<open>
  \<open>representative_date\<close>: the median of the sorted dates, \<open>dates[len(dates) // 2]\<close>,
  which raises \<open>IndexError\<close> for a cluster with no photo.
\<close>

definition representative_date :: "photo_cluster \<Rightarrow> datetime option" where
  "representative_date cluster =
     (let dates = sort (map photo_date (photos cluster))
      in py_get dates (int (length dates) div 2))"

text \<open>
  The loop of \<open>cluster_photos_by_minimum_gap\<close> from index 1 on: \<open>prev_photo\<close> is the
  photo before the current one, \<open>current_cluster_photos\<close> the cluster being built and
  \<open>clusters\<close> the clusters closed so far. The final cluster is added after the loop.
\<close>

fun minimum_gap_loop ::
  "time_gap \<Rightarrow> photo_metadata \<Rightarrow> photo_metadata list \<Rightarrow> photo_cluster list
     \<Rightarrow> photo_metadata list \<Rightarrow> photo_cluster list" where
  "minimum_gap_loop tg prev_photo current_cluster_photos clusters [] =
     (if current_cluster_photos \<noteq> [] then clusters @ [make_cluster current_cluster_photos]
      else clusters)"
| "minimum_gap_loop tg prev_photo current_cluster_photos clusters (current_photo # rest) =
     (let gap = calculate_time_delta (photo_date prev_photo) (photo_date current_photo) (unit tg)
      in if gap \<ge> amount tg
         then minimum_gap_loop tg current_photo [current_photo]
                (clusters @ [make_cluster current_cluster_photos]) rest
         else minimum_gap_loop tg current_photo (current_cluster_photos @ [current_photo])
                clusters rest)"

definition cluster_photos_by_minimum_gap ::
  "photo_metadata list \<Rightarrow> time_gap \<Rightarrow> photo_cluster list" where
  "cluster_photos_by_minimum_gap ps tg =
     (case ps of
        [] \<Rightarrow> []
      | first # rest \<Rightarrow> minimum_gap_loop tg first [first] [] rest)"

text \<open>
  \<open>cluster_photos_by_same_period\<close>. The dictionary \<open>period_groups\<close> keeps its keys in
  insertion order and is an association list. \<open>normalize_to_period_start\<close> is calendar
  arithmetic of the \<open>datetime\<close> library and is a parameter.
\<close>

fun period_groups_add ::
  "datetime \<Rightarrow> photo_metadata \<Rightarrow> (datetime \<times> photo_metadata list) list
     \<Rightarrow> (datetime \<times> photo_metadata list) list" where
  "period_groups_add period_start photo [] = [(period_start, [photo])]"
| "period_groups_add period_start photo ((k, group_photos) # groups) =
     (if k = period_start then (k, group_photos @ [photo]) # groups
      else (k, group_photos) # period_groups_add period_start photo groups)"

definition cluster_photos_by_same_period ::
  "(datetime \<Rightarrow> time_unit \<Rightarrow> datetime) \<Rightarrow> photo_metadata list \<Rightarrow> time_gap
     \<Rightarrow> photo_cluster list" where
  "cluster_photos_by_same_period normalize_to_period_start ps tg =
     (let period_groups =
            fold (\<lambda>photo groups.
                    period_groups_add (normalize_to_period_start (photo_date photo) (unit tg))
                      photo groups)
                 ps [];
          clusters = map (\<lambda>(period_start, group_photos). make_cluster group_photos)
                       (filter (\<lambda>(period_start, group_photos). group_photos \<noteq> [])
                          period_groups)
      in sort_key cluster_start_date clusters)"

definition cluster_photos_by_time_gap ::
  "(datetime \<Rightarrow> time_unit \<Rightarrow> datetime) \<Rightarrow> photo_metadata list \<Rightarrow> time_gap
     \<Rightarrow> photo_cluster list" where
  "cluster_photos_by_time_gap normalize_to_period_start ps tg =
     (if amount tg = 0
      then map (\<lambda>photo. \<lparr> photos = [photo], cluster_start_date = photo_date photo,
                           cluster_end_date = photo_date photo \<rparr>) ps
      else if same_period_mode tg
      then cluster_photos_by_same_period normalize_to_period_start ps tg
      else cluster_photos_by_minimum_gap ps tg)"

section \<open>Slot assignment (core.py)\<close>

text \<open>
  The state the two passes share: the occupancy list \<open>beat_occupied\<close>, the placements made
  so far, and the warnings printed so far.
\<close>

record assign_state =
  beat_occupied :: "bool list"
  placements :: "photo_placement list"
  warnings :: "warning list"

text \<open>
  A \<open>for\<close> loop whose body may end the run: the body is applied to the items in order
  and the first error stops the loop.
\<close>

fun for_each :: "('s \<Rightarrow> 'a \<Rightarrow> error + 's) \<Rightarrow> 's \<Rightarrow> 'a list \<Rightarrow> error + 's" where
  "for_each body s [] = Inr s"
| "for_each body s (x # xs) =
     (case body s x of Inl e \<Rightarrow> Inl e | Inr s' \<Rightarrow> for_each body s' xs)"

text \<open>
  \<open>MediaAsset.from_photo(path, generate_deterministic_uid(path, id_method))\<close>. The UID is
  read from the file system (inode, content hash or resolved path) and is the parameter
  \<open>uid_of\<close>.
\<close>

definition from_photo :: "(string \<Rightarrow> string) \<Rightarrow> string \<Rightarrow> media_asset" where
  "from_photo uid_of p = \<lparr> path = p, asset_media_type = VIDEO, uid = uid_of p \<rparr>"

text \<open>
  The body of the first pass, for one photo. The two mapping functions of the source repeat
  it with two differences, which are the parameters \<open>cid\<close> and \<open>warn_outside\<close>: the
  clustered one records the cluster's index, and only the unclustered one warns about a beat
  outside the effective range.
\<close>

definition place_anchored ::
  "(string \<Rightarrow> string) \<Rightarrow> int \<Rightarrow> int \<Rightarrow> int \<Rightarrow> nat option \<Rightarrow> bool
     \<Rightarrow> assign_state \<Rightarrow> photo_metadata \<Rightarrow> error + assign_state" where
  "place_anchored uid_of len_beats start_offset end_offset cid warn_outside s photo =
     (case photo_anchor photo of
        None \<Rightarrow> Inr s
      | Some anchor \<Rightarrow>
          (let beat_idx = anchor - 1
           in if start_offset \<le> beat_idx \<and> beat_idx < len_beats - end_offset
              then (case py_get (beat_occupied s) beat_idx of
                      None \<Rightarrow> Inl IndexError
                    | Some occupied \<Rightarrow>
                        if occupied
                        then Inr (s\<lparr> warnings :=
                                     warnings s @ [BeatOccupied anchor (photo_path photo)] \<rparr>)
                        else Inr (s\<lparr> beat_occupied := py_set (beat_occupied s) beat_idx True,
                                     placements := placements s @
                                       [\<lparr> placement_asset = from_photo uid_of (photo_path photo),
                                          beat_index = beat_idx,
                                          placement_date = photo_date photo,
                                          is_anchored = True,
                                          cluster_id = cid \<rparr>] \<rparr>))
              else if warn_outside
              then Inr (s\<lparr> warnings :=
                           warnings s @ [BeatOutsideRange anchor (photo_path photo)] \<rparr>)
              else Inr s))"

text \<open>
  The preferred beat of a date. \<open>timespan\<close> and the date's distance from \<open>start_date\<close>
  are both in microseconds here and both in seconds in the source; the quotient
  \<open>position\<close> is the same.
\<close>

definition preferred_beat :: "datetime \<Rightarrow> int \<Rightarrow> int \<Rightarrow> int \<Rightarrow> datetime \<Rightarrow> int" where
  "preferred_beat start_date timespan start_offset num_effective_beats d =
     (let position = (of_int (d - start_date) :: rat) / of_int timespan
      in start_offset
           + min (py_int (position * of_int (num_effective_beats - 1)))
                 (num_effective_beats - 1))"

text \<open>
  The search loop, entered with \<open>beat_occupied[preferred_beat]\<close> true: it leaves with
  \<open>Some candidate\<close> at the \<open>break\<close>, and with \<open>None\<close> when \<open>search_radius\<close>
  reaches \<open>num_effective_beats\<close> (\<open>assigned_beat\<close> is then still the occupied
  preferred beat). \<open>stop\<close> is \<open>len(beats) - end_offset\<close>.
\<close>

function search_beat ::
  "bool list \<Rightarrow> int \<Rightarrow> int \<Rightarrow> int \<Rightarrow> int \<Rightarrow> int \<Rightarrow> error + int option" where
  "search_beat occ start_offset stop num_effective_beats preferred search_radius =
     (if search_radius < num_effective_beats
      then (let r = search_radius + 1;
                candidate = (if r mod 2 = 1 then preferred - (r div 2 + 1)
                             else preferred + r div 2)
            in if start_offset \<le> candidate \<and> candidate < stop
               then (case py_get occ candidate of
                       None \<Rightarrow> Inl IndexError
                     | Some occupied \<Rightarrow>
                         if \<not> occupied then Inr (Some candidate)
                         else search_beat occ start_offset stop num_effective_beats preferred r)
               else search_beat occ start_offset stop num_effective_beats preferred r)
      else Inr None)"
  by pat_completeness auto
termination
  by (relation "measure (\<lambda>(occ, start_offset, stop, n, preferred, radius). nat (n - radius))")
     auto

declare search_beat.simps [simp del]

text \<open>
  The beat a photo or cluster is assigned: the preferred beat when it is free, else the
  result of the search; \<open>None\<close> when nothing was found, and the item is then not placed.
\<close>

definition find_available_beat ::
  "bool list \<Rightarrow> int \<Rightarrow> int \<Rightarrow> int \<Rightarrow> int \<Rightarrow> error + int option" where
  "find_available_beat occ start_offset stop num_effective_beats preferred =
     (case py_get occ preferred of
        None \<Rightarrow> Inl IndexError
      | Some occupied \<Rightarrow>
          if \<not> occupied then Inr (Some preferred)
          else search_beat occ start_offset stop num_effective_beats preferred 0)"

text \<open>The body of the second pass of \<open>map_photos_to_beats_original\<close>, for one photo.\<close>

definition distribute_photo ::
  "(string \<Rightarrow> string) \<Rightarrow> int \<Rightarrow> datetime \<Rightarrow> int \<Rightarrow> int \<Rightarrow> int \<Rightarrow> int
     \<Rightarrow> assign_state \<Rightarrow> photo_metadata \<Rightarrow> error + assign_state" where
  "distribute_photo uid_of len_beats start_date timespan start_offset end_offset
       num_effective_beats s photo =
     (let preferred =
            preferred_beat start_date timespan start_offset num_effective_beats
              (photo_date photo)
      in case find_available_beat (beat_occupied s) start_offset (len_beats - end_offset)
                num_effective_beats preferred of
           Inl e \<Rightarrow> Inl e
         | Inr None \<Rightarrow> Inr s
         | Inr (Some assigned_beat) \<Rightarrow>
             Inr (s\<lparr> beat_occupied := py_set (beat_occupied s) assigned_beat True,
                      placements := placements s @
                        [\<lparr> placement_asset = from_photo uid_of (photo_path photo),
                           beat_index = assigned_beat,
                           placement_date = photo_date photo,
                           is_anchored = False,
                           cluster_id = None \<rparr>] \<rparr>))"

definition in_date_range :: "datetime \<Rightarrow> datetime \<Rightarrow> photo_metadata \<Rightarrow> bool" where
  "in_date_range start_date end_date photo =
     (start_date \<le> photo_date photo \<and> photo_date photo \<le> end_date)"

definition initial_state :: "'b list \<Rightarrow> assign_state" where
  "initial_state beats =
     \<lparr> beat_occupied = replicate (length beats) False, placements = [], warnings = [] \<rparr>"

text \<open>
  \<open>map_photos_to_beats_original\<close>. The result of a run that is not ended by an error is
  the warnings printed and the sorted placements (\<open>sorted\<close> is stable, as \<open>sort_key\<close>).
\<close>

definition map_photos_to_beats_original ::
  "(string \<Rightarrow> string) \<Rightarrow> photo_metadata list \<Rightarrow> 'b list \<Rightarrow> datetime \<Rightarrow> datetime
     \<Rightarrow> int \<Rightarrow> int \<Rightarrow> error + (warning list \<times> photo_placement list)" where
  "map_photos_to_beats_original uid_of ps beats start_date end_date start_offset end_offset =
     (let timespan = end_date - start_date
      in if timespan \<le> 0 then Inl InvalidTimeSpan
         else
          (let len_beats = int (length beats);
               num_effective_beats =
                 py_slice_len len_beats start_offset (len_beats - end_offset);
               filtered_photos = filter (in_date_range start_date end_date) ps
           in if int (length filtered_photos) > num_effective_beats
              then Inl (TooManyPhotos (int (length filtered_photos)) num_effective_beats)
              else
               (case for_each
                       (place_anchored uid_of len_beats start_offset end_offset None True)
                       (initial_state beats) filtered_photos of
                  Inl e \<Rightarrow> Inl e
                | Inr s1 \<Rightarrow>
                   (let non_anchored =
                          filter (\<lambda>photo. photo_anchor photo = None
                                    \<or> \<not> (\<exists>p \<in> set (placements s1).
                                             path (placement_asset p) = photo_path photo))
                            filtered_photos
                    in case for_each
                              (distribute_photo uid_of len_beats start_date timespan
                                 start_offset end_offset num_effective_beats)
                              s1 non_anchored of
                         Inl e \<Rightarrow> Inl e
                       | Inr s2 \<Rightarrow>
                           Inr (warnings s2, sort_key beat_index (placements s2))))))"

text \<open>
  The first pass of \<open>map_photo_clusters_to_beats\<close> for one cluster of
  \<open>enumerate(clusters)\<close>: the inner loop over the cluster's photos.
\<close>

definition anchor_cluster ::
  "(string \<Rightarrow> string) \<Rightarrow> int \<Rightarrow> int \<Rightarrow> int \<Rightarrow> assign_state \<Rightarrow> nat \<times> photo_cluster
     \<Rightarrow> error + assign_state" where
  "anchor_cluster uid_of len_beats start_offset end_offset s ic =
     for_each (place_anchored uid_of len_beats start_offset end_offset (Some (fst ic)) False)
       s (photos (snd ic))"

text \<open>
  Placing one photo of a cluster at the cluster's beat; a photo that some placement
  already holds as anchored is skipped.
\<close>

definition place_cluster_photo ::
  "(string \<Rightarrow> string) \<Rightarrow> nat \<Rightarrow> int \<Rightarrow> photo_metadata \<Rightarrow> assign_state \<Rightarrow> assign_state" where
  "place_cluster_photo uid_of cluster_idx assigned_beat photo s =
     (if \<exists>p \<in> set (placements s).
           path (placement_asset p) = photo_path photo \<and> is_anchored p
      then s
      else s\<lparr> placements := placements s @
                 [\<lparr> placement_asset = from_photo uid_of (photo_path photo),
                    beat_index = assigned_beat,
                    placement_date = photo_date photo,
                    is_anchored = False,
                    cluster_id = Some cluster_idx \<rparr>] \<rparr>)"

text \<open>The body of the second pass of \<open>map_photo_clusters_to_beats\<close>, for one cluster.\<close>

definition distribute_cluster ::
  "(string \<Rightarrow> string) \<Rightarrow> int \<Rightarrow> datetime \<Rightarrow> int \<Rightarrow> int \<Rightarrow> int \<Rightarrow> int
     \<Rightarrow> assign_state \<Rightarrow> nat \<times> photo_cluster \<Rightarrow> error + assign_state" where
  "distribute_cluster uid_of len_beats start_date timespan start_offset end_offset
       num_effective_beats s ic =
     (case representative_date (snd ic) of
        None \<Rightarrow> Inl IndexError
      | Some d \<Rightarrow>
         (let preferred =
                preferred_beat start_date timespan start_offset num_effective_beats d
          in case find_available_beat (beat_occupied s) start_offset (len_beats - end_offset)
                    num_effective_beats preferred of
               Inl e \<Rightarrow> Inl e
             | Inr None \<Rightarrow> Inr s
             | Inr (Some assigned_beat) \<Rightarrow>
                 Inr (fold (place_cluster_photo uid_of (fst ic) assigned_beat)
                        (photos (snd ic))
                        (s\<lparr> beat_occupied := py_set (beat_occupied s) assigned_beat True \<rparr>))))"

definition map_photo_clusters_to_beats ::
  "(string \<Rightarrow> string) \<Rightarrow> photo_cluster list \<Rightarrow> 'b list \<Rightarrow> datetime \<Rightarrow> datetime
     \<Rightarrow> int \<Rightarrow> int \<Rightarrow> error + (warning list \<times> photo_placement list)" where
  "map_photo_clusters_to_beats uid_of clusters beats start_date end_date start_offset
       end_offset =
     (let timespan = end_date - start_date
      in if timespan \<le> 0 then Inl InvalidTimeSpan
         else
          (let len_beats = int (length beats);
               num_effective_beats =
                 py_slice_len len_beats start_offset (len_beats - end_offset)
           in if int (length clusters) > num_effective_beats
              then Inl (TooManyClusters (int (length clusters)) num_effective_beats)
              else
               (case for_each (anchor_cluster uid_of len_beats start_offset end_offset)
                       (initial_state beats) (enumerate 0 clusters) of
                  Inl e \<Rightarrow> Inl e
                | Inr s1 \<Rightarrow>
                   (let unassigned_clusters =
                          filter (\<lambda>ic. \<not> (\<exists>p \<in> set (placements s1).
                                             cluster_id p = Some (fst ic) \<and> is_anchored p))
                            (enumerate 0 clusters)
                    in case for_each
                              (distribute_cluster uid_of len_beats start_date timespan
                                 start_offset end_offset num_effective_beats)
                              s1 unassigned_clusters of
                         Inl e \<Rightarrow> Inl e
                       | Inr s2 \<Rightarrow>
                           Inr (warnings s2,
                                sort_key (\<lambda>p. (beat_index p, placement_date p))
                                  (placements s2))))))"

text \<open>
  \<open>map_photos_to_beats\<close>: the date filter, the early return when nothing is left, and
  the choice between the two mapping functions.
\<close>

definition map_photos_to_beats ::
  "(datetime \<Rightarrow> time_unit \<Rightarrow> datetime) \<Rightarrow> (string \<Rightarrow> string) \<Rightarrow> photo_metadata list
     \<Rightarrow> 'b list \<Rightarrow> datetime \<Rightarrow> datetime \<Rightarrow> int \<Rightarrow> int \<Rightarrow> time_gap
     \<Rightarrow> error + (warning list \<times> photo_placement list)" where
  "map_photos_to_beats normalize_to_period_start uid_of ps beats start_date end_date
       start_offset end_offset tg =
     (let filtered_photos = filter (in_date_range start_date end_date) ps
      in if filtered_photos = [] then Inr ([NoPhotosInRange], [])
         else if amount tg = 0
         then map_photos_to_beats_original uid_of filtered_photos beats start_date end_date
                start_offset end_offset
         else map_photo_clusters_to_beats uid_of
                (cluster_photos_by_time_gap normalize_to_period_start filtered_photos tg)
                beats start_date end_date start_offset end_offset)"

section \<open>Differential reconciliation: the plan (resolve\_sync.py)\<close>

text \<open>
  A timeline item of the host, as far as the engine reads it: \<open>GetStart(True)\<close> and
  \<open>GetDuration(True)\<close>, frame counts that may carry a fraction.
\<close>

record timeline_item =
  item_start :: rat
  item_duration :: rat

record sync_state =
  project_name :: string
  timeline_name :: string
  photo_count :: nat
  audio_duration_ms :: int
  state_placeholder_mode :: placeholder_mode
  managed_asset_uids :: "string set"
  timeline_item_count :: nat
  last_sync_version :: string

text \<open>
  \<open>TimelineChanges\<close>. The source builds \<open>items_to_add\<close> and \<open>items_to_update\<close> as
  tuples by iterating over a Python set, whose order is not fixed; they are sets here, and
  \<open>items_to_remove\<close> is the set \<open>stale_uids\<close> itself, as in the source.
\<close>

record timeline_changes =
  items_to_add :: "timeline_element set"
  items_to_remove :: "string set"
  items_to_update :: "(string \<times> timeline_element) set"
  markers_to_sync :: bool


text \<open>
  \<open>_requires_update\<close>: the start and the duration of the current item against the target
  element's frame counts, with a tolerance of half a frame. The project's frame rate is read
  by the source and not used.
\<close>

definition requires_update ::
  "timeline_item \<Rightarrow> timeline_element \<Rightarrow> timeline_project \<Rightarrow> bool" where
  "requires_update current_item target_element project =
     (let tolerance = (1 / 2 :: rat);
          current_start_frames = item_start current_item;
          target_start_frames = of_int (start_frame (time_range target_element))
      in if \<bar>current_start_frames - target_start_frames\<bar> > tolerance then True
         else
           (let current_duration_frames = item_duration current_item;
                target_duration_frames = of_int (duration_frames (time_range target_element))
            in \<bar>current_duration_frames - target_duration_frames\<bar> > tolerance))"

text \<open>
  \<open>managed_uids = stored_state.managed_asset_uids if stored_state else frozenset()\<close>.
\<close>

definition managed_uids_of :: "sync_state option \<Rightarrow> string set" where
  "managed_uids_of stored_state =
     (case stored_state of None \<Rightarrow> {} | Some st \<Rightarrow> managed_asset_uids st)"

text \<open>
  \<open>_compute_differential_changes\<close>. The two dictionaries are maps from UID; the lookups
  \<open>target_elements[uid]\<close> and \<open>current_items[uid]\<close> are made for keys of the respective
  dictionary only, so \<open>the\<close> meets \<open>Some\<close> values only.
\<close>

definition compute_differential_changes ::
  "(string \<rightharpoonup> timeline_item) \<Rightarrow> (string \<rightharpoonup> timeline_element) \<Rightarrow> sync_state option
     \<Rightarrow> timeline_project \<Rightarrow> timeline_changes" where
  "compute_differential_changes current_items target_elements stored_state project =
     (let current_uids = dom current_items;
          target_uids = dom target_elements;
          managed_uids = managed_uids_of stored_state;
          new_uids = target_uids - current_uids;
          stale_uids = (current_uids \<inter> managed_uids) - target_uids;
          common_uids = current_uids \<inter> target_uids
      in \<lparr> items_to_add = (\<lambda>u. the (target_elements u)) ` new_uids,
           items_to_remove = stale_uids,
           items_to_update =
             (\<lambda>u. (u, the (target_elements u))) `
               Set.filter
                 (\<lambda>u. requires_update (the (current_items u)) (the (target_elements u)) project)
                 common_uids,
           markers_to_sync = True \<rparr>)"

text \<open>
  \<open>target_elements = {elem.asset.uid: elem for elem in project.elements if elem.asset}\<close>
  of \<open>sync_project\<close>: a later element replaces an earlier one with the same UID.
\<close>

definition target_elements_of :: "timeline_project \<Rightarrow> (string \<rightharpoonup> timeline_element)" where
  "target_elements_of project =
     fold (\<lambda>elem m. case asset elem of None \<Rightarrow> m | Some a \<Rightarrow> m(uid a \<mapsto> elem))
       (elements project) Map.empty"

text \<open>
  The state \<open>_sync_timeline_content\<close> persists after applying: \<open>asset_uids\<close> collects the
  UID of every element that has an asset.
\<close>

definition asset_uids_of :: "timeline_project \<Rightarrow> string set" where
  "asset_uids_of project = set (map uid (List.map_filter asset (elements project)))"

definition persisted_state :: "timeline_project \<Rightarrow> sync_state" where
  "persisted_state project =
     \<lparr> project_name = tp_name project,
       timeline_name = tp_name project,
       photo_count = length (photo_placements project),
       audio_duration_ms = py_int (tp_duration project),
       state_placeholder_mode = tp_placeholder_mode project,
       managed_asset_uids = asset_uids_of project,
       timeline_item_count = length (elements project),
       last_sync_version = ''1.0'' \<rparr>"

section \<open>Differential reconciliation: the session (resolve\_sync.py)\<close>

text \<open>
  The host is an external program. A session is modelled by the answers the host gives
  (the record \<open>host\<close>) and by the list of mutating calls the engine issues, in order.
  Calls that only read (\<open>LoadProject\<close>, \<open>GetTimelineCount\<close>, \<open>GetItemListInTrack\<close>,
  \<open>GetMarkers\<close>, \<open>GetSetting\<close>, ...) are not recorded. A call is recorded when it is
  issued, also when the host rejects it.
\<close>

datatype host_call =
    CloseProject string
  | DeleteProject string
  | CreateProject string
  | SetProjectSetting string
  | CreateEmptyTimeline string
  | ImportMedia
  | AppendToTimeline
  | SyncBeatMarkers
  | PersistState
  | SetCurrentTimeline

datatype sync_error =
    ResolveConnectionError
  | ProjectCreationFailed
  | SetSettingFailed string
  | TimelineCreationFailed

record host =
  connected :: bool
  project_exists :: bool
  create_project_ok :: bool
  setting_accepted :: "string \<Rightarrow> bool"
  timeline_exists :: bool
  create_timeline_ok :: bool
  current_items :: "string \<rightharpoonup> timeline_item"
  stored_state :: "sync_state option"
  conflicts_present :: bool
  confirm_answer :: bool

text \<open>\<open>_locate_or_create_project\<close>.\<close>

definition locate_or_create_project ::
  "host \<Rightarrow> string \<Rightarrow> bool \<Rightarrow> host_call list \<times> sync_error option" where
  "locate_or_create_project h name recreate =
     (if project_exists h \<and> \<not> recreate then ([], None)
      else
        (let removed =
               (if project_exists h then [CloseProject name, DeleteProject name] else [])
         in if create_project_ok h then (removed @ [CreateProject name], None)
            else (removed @ [CreateProject name], Some ProjectCreationFailed)))"

text \<open>
  The three \<open>assert resolve_project.SetSetting(...)\<close> of \<open>sync_project\<close>, in order; the
  first one the host rejects ends the session.
\<close>

fun set_project_settings :: "host \<Rightarrow> string list \<Rightarrow> host_call list \<times> sync_error option" where
  "set_project_settings h [] = ([], None)"
| "set_project_settings h (k # ks) =
     (if setting_accepted h k
      then (case set_project_settings h ks of (calls, e) \<Rightarrow> (SetProjectSetting k # calls, e))
      else ([SetProjectSetting k], Some (SetSettingFailed k)))"

definition project_setting_keys :: "string list" where
  "project_setting_keys =
     [''timelineFrameRate'', ''timelineFrameRateMismatchBehavior'', ''videoMonitorFormat'']"

text \<open>
  \<open>_sync_timeline_content\<close>, summarised by the host capabilities it uses, in order: the
  media import, the placement of items (all elements on a new timeline, the additions of
  the plan otherwise), the marker synchronisation, the persisted state and the activation
  of the timeline. How many items a call carries is not modelled.
\<close>

definition sync_timeline_content :: "timeline_changes option \<Rightarrow> host_call list" where
  "sync_timeline_content changes =
     [ImportMedia]
     @ (case changes of
          None \<Rightarrow> [AppendToTimeline, SyncBeatMarkers]
        | Some c \<Rightarrow>
            (if items_to_add c \<noteq> {} then [AppendToTimeline] else [])
            @ (if markers_to_sync c then [SyncBeatMarkers] else []))
     @ [PersistState, SetCurrentTimeline]"

text \<open>
  \<open>sync_project\<close>: the calls issued and the exception that ended the session, if any.
  A timeline is found only in a project that existed and was not recreated.
\<close>

definition sync_project ::
  "host \<Rightarrow> timeline_project \<Rightarrow> bool \<Rightarrow> bool \<Rightarrow> bool \<Rightarrow> host_call list \<times> sync_error option"
  where
  "sync_project h project force recreate dry_run =
     (if \<not> connected h then ([], Some ResolveConnectionError)
      else
       (case locate_or_create_project h (tp_name project) recreate of
          (c1, Some e) \<Rightarrow> (c1, Some e)
        | (c1, None) \<Rightarrow>
           (case set_project_settings h project_setting_keys of
              (c2, Some e) \<Rightarrow> (c1 @ c2, Some e)
            | (c2, None) \<Rightarrow>
               (if \<not> (timeline_exists h \<and> project_exists h \<and> \<not> recreate)
                then
                  (if dry_run then (c1 @ c2, None)
                   else if create_timeline_ok h
                   then (c1 @ c2 @ [CreateEmptyTimeline (tp_name project)]
                           @ sync_timeline_content None, None)
                   else (c1 @ c2 @ [CreateEmptyTimeline (tp_name project)],
                         Some TimelineCreationFailed))
                else
                  (let changes =
                         compute_differential_changes (current_items h)
                           (target_elements_of project) (stored_state h) project
                   in if conflicts_present h \<and> \<not> force
                      then
                        (if dry_run then (c1 @ c2, None)
                         else if \<not> confirm_answer h then (c1 @ c2, None)
                         else (c1 @ c2 @ sync_timeline_content (Some changes), None))
                      else if dry_run then (c1 @ c2, None)
                      else (c1 @ c2 @ sync_timeline_content (Some changes), None))))))"

section \<open>Predicates of the statements\<close>

text \<open>
  Every two neighbours in a list of photos are closer than the configured gap, the gap
  being measured as \<open>cluster_photos_by_minimum_gap\<close> measures it.
\<close>

fun gaps_below :: "time_gap \<Rightarrow> photo_metadata list \<Rightarrow> bool" where
  "gaps_below tg [] = True"
| "gaps_below tg [p] = True"
| "gaps_below tg (p # q # ps) =
     (calculate_time_delta (photo_date p) (photo_date q) (unit tg) < amount tg
      \<and> gaps_below tg (q # ps))"

text \<open>
  A list of groups is split at the gaps: no group is empty, inside a group neighbours are
  closer than the gap, and from the last photo of a group to the first of the next the gap
  is at least the configured amount.
\<close>

fun split_at_gaps :: "time_gap \<Rightarrow> photo_metadata list list \<Rightarrow> bool" where
  "split_at_gaps tg [] = True"
| "split_at_gaps tg [g] = (g \<noteq> [] \<and> gaps_below tg g)"
| "split_at_gaps tg (g # h # gs) =
     (g \<noteq> [] \<and> gaps_below tg g \<and> h \<noteq> []
      \<and> amount tg \<le> calculate_time_delta (photo_date (last g)) (photo_date (hd h)) (unit tg)
      \<and> split_at_gaps tg (h # gs))"


text \<open>
  The test \<open>any(p.asset.path == path and p.is_anchored for p in placements)\<close>, and the
  \<open>PhotoPlacement\<close> the passes build for a photo.
\<close>

definition held_anchored :: "photo_placement list \<Rightarrow> photo_metadata \<Rightarrow> bool" where
  "held_anchored pls photo =
     (\<exists>p \<in> set pls. path (placement_asset p) = photo_path photo \<and> is_anchored p)"

definition placement_of ::
  "(string \<Rightarrow> string) \<Rightarrow> nat option \<Rightarrow> bool \<Rightarrow> int \<Rightarrow> photo_metadata \<Rightarrow> photo_placement" where
  "placement_of uid_of cid anchored b photo =
     \<lparr> placement_asset = from_photo uid_of (photo_path photo),
       beat_index = b,
       placement_date = photo_date photo,
       is_anchored = anchored,
       cluster_id = cid \<rparr>"


text \<open>A placement carries the path and the date of one of the photos of a set.\<close>

definition placed_from :: "photo_metadata set \<Rightarrow> photo_placement \<Rightarrow> bool" where
  "placed_from S pl =
     (\<exists>photo \<in> S. path (placement_asset pl) = photo_path photo
        \<and> placement_date pl = photo_date photo)"

text \<open>
  An anchored placement as the pin pass makes it: of a photo of the cluster with index
  \<open>j\<close>, at the slot its pin names.
\<close>

definition anchored_from ::
  "(string \<Rightarrow> string) \<Rightarrow> photo_cluster list \<Rightarrow> photo_placement \<Rightarrow> bool" where
  "anchored_from uid_of clusters p =
     (\<exists>j photo a. j < length clusters \<and> photo \<in> set (photos (clusters ! j))
        \<and> photo_anchor photo = Some a
        \<and> p = placement_of uid_of (Some j) True (a - 1) photo)"

text \<open>
  The invariant of the chronological pass over the clusters. \<open>A\<close> are the placements the
  pin pass left, \<open>U0\<close> the unassigned clusters and \<open>U\<close> those of them still to come:
  the anchored placements are those of \<open>A\<close>; a placement that is not anchored belongs to an
  unassigned cluster that is not to come again, all of whose photos are placed at the same
  beat; and two such placements of one cluster are at the same beat.
\<close>

definition chrono_inv ::
  "(string \<Rightarrow> string) \<Rightarrow> photo_placement list \<Rightarrow> (nat \<times> photo_cluster) list
     \<Rightarrow> (nat \<times> photo_cluster) list \<Rightarrow> assign_state \<Rightarrow> bool" where
  "chrono_inv uid_of A U0 U t =
     ((\<forall>p \<in> set (placements t). is_anchored p \<longrightarrow> p \<in> set A)
      \<and> (\<forall>ph. held_anchored (placements t) ph = held_anchored A ph)
      \<and> (\<forall>p \<in> set (placements t). \<not> is_anchored p \<longrightarrow>
            (\<exists>ic \<in> set U0. cluster_id p = Some (fst ic) \<and> fst ic \<notin> fst ` set U
               \<and> (\<forall>ph \<in> set (photos (snd ic)).
                     placement_of uid_of (Some (fst ic)) False (beat_index p) ph
                       \<in> set (placements t))))
      \<and> (\<forall>p \<in> set (placements t). \<forall>p' \<in> set (placements t).
            \<not> is_anchored p \<and> \<not> is_anchored p' \<and> cluster_id p = cluster_id p'
            \<longrightarrow> beat_index p = beat_index p'))"

section \<open>Example inputs\<close>

text \<open>
  A project with one photo element, a host whose timeline holds that element where the
  project wants it (as after a first run), and a foreign item.
\<close>

definition demo_element :: timeline_element where
  "demo_element =
     \<lparr> asset = Some \<lparr> path = ''a.jpg'', asset_media_type = VIDEO, uid = ''U1'' \<rparr>,
       time_range = \<lparr> tr_start = 0, tr_duration = 500, start_frame = 0, duration_frames = 30 \<rparr>,
       track = 1,
       element_media_type = VIDEO \<rparr>"

definition demo_project :: timeline_project where
  "demo_project =
     \<lparr> tp_name = ''P'', tp_duration = 500, frame_rate = 60, elements = [demo_element],
       photo_placements = [], tp_placeholder_mode = PM_NONE \<rparr>"

definition demo_item :: timeline_item where
  "demo_item = \<lparr> item_start = 0, item_duration = 30 \<rparr>"

definition demo_current_items :: "string \<rightharpoonup> timeline_item" where
  "demo_current_items = [''U1'' \<mapsto> demo_item]"

definition demo_host :: host where
  "demo_host =
     \<lparr> connected = True, project_exists = True, create_project_ok = True,
       setting_accepted = (\<lambda>k. True), timeline_exists = True, create_timeline_ok = True,
       current_items = demo_current_items,
       stored_state = Some (persisted_state demo_project),
       conflicts_present = True, confirm_answer = False \<rparr>"

text \<open>
  Five beats; five photos, four of them taken at the start of the date range; and two
  clusters, the second with a photo pinned to beat 2. Dates are in microseconds; the runs
  below take the date range from 0 to 100.
\<close>

definition demo_beats :: "nat list" where
  "demo_beats = [0, 1, 2, 3, 4]"

definition demo_photos :: "photo_metadata list" where
  "demo_photos =
     [(''a'', 0, None), (''b'', 0, None), (''c'', 0, None), (''d'', 0, None),
      (''e'', 100, None)]"

definition demo_clusters :: "photo_cluster list" where
  "demo_clusters =
     [make_cluster [(''a'', 0, None), (''b'', 10, None)], make_cluster [(''c'', 90, Some 2)]]"

definition demo_time_gap :: time_gap where
  "demo_time_gap = \<lparr> amount = 0, unit = SECOND, same_period_mode = False \<rparr>"


text \<open>One cluster whose two photos are pinned to beats 1 and 2.\<close>

definition demo_two_pins :: "photo_cluster list" where
  "demo_two_pins = [make_cluster [(''a'', 0, Some 1), (''b'', 10, Some 2)]]"

section \<open>Properties of the plan\<close>

lemma dom_fold_target:
  "dom (fold (\<lambda>elem m. case asset elem of None \<Rightarrow> m | Some a \<Rightarrow> m(uid a \<mapsto> elem)) es m0)
     = dom m0 \<union> set (map uid (List.map_filter asset es))"
  by (induction es arbitrary: m0) (auto simp: List.map_filter_simps split: option.splits)

lemma dom_target_elements_of: "dom (target_elements_of project) = asset_uids_of project"
  by (simp add: target_elements_of_def asset_uids_of_def dom_fold_target)


text \<open>
  C2 (conservative removal). The removals of the plan are exactly the currently present
  UIDs that were previously managed, minus the target UIDs; a UID outside the previously
  managed set is never proposed for removal; and with no stored state the removal set is
  empty.
\<close>

theorem conservative_removal:
  "items_to_remove (compute_differential_changes cur tgt stored project)
     = (dom cur \<inter> managed_uids_of stored) - dom tgt
   \<and> (u \<notin> managed_uids_of stored \<longrightarrow>
        u \<notin> items_to_remove (compute_differential_changes cur tgt stored project))
   \<and> items_to_remove (compute_differential_changes cur tgt None project) = {}"
  by (simp add: compute_differential_changes_def managed_uids_of_def Let_def)

text \<open>
  The managed item \<open>U1\<close> is no longer a target and is removed; the foreign item \<open>F\<close>,
  present on the timeline and no target either, is not.
\<close>

theorem conservative_removal_witness:
  "''F'' \<notin> managed_uids_of (Some (persisted_state demo_project))
   \<and> items_to_remove
        (compute_differential_changes (demo_current_items(''F'' \<mapsto> demo_item)) Map.empty
           (Some (persisted_state demo_project)) demo_project) = {''U1''}
   \<and> ''F'' \<notin> items_to_remove
        (compute_differential_changes (demo_current_items(''F'' \<mapsto> demo_item)) Map.empty
           (Some (persisted_state demo_project)) demo_project)"
  using conservative_removal [of "demo_current_items(''F'' \<mapsto> demo_item)" Map.empty
      "Some (persisted_state demo_project)" demo_project "''F''"]
  by (auto simp: managed_uids_of_def persisted_state_def asset_uids_of_def demo_project_def
      demo_element_def demo_current_items_def List.map_filter_simps)




section \<open>Properties of the session\<close>

text \<open>
  C4 (a dry run performs no mutation) does not hold of \<open>sync_project\<close>: the project is
  located or created, and the three project settings are written, before the dry-run
  option is read. With \<open>recreate\<close> and \<open>dry_run\<close> both set, the existing project is
  closed, deleted and created again; a plain dry run writes the three settings; and so
  does a session that the operator declines at the conflict gate.
\<close>

theorem dry_run_issues_mutations:
  "sync_project demo_host demo_project False True True
     = ([CloseProject ''P'', DeleteProject ''P'', CreateProject ''P'',
         SetProjectSetting ''timelineFrameRate'',
         SetProjectSetting ''timelineFrameRateMismatchBehavior'',
         SetProjectSetting ''videoMonitorFormat''], None)
   \<and> sync_project demo_host demo_project False False True
     = ([SetProjectSetting ''timelineFrameRate'',
         SetProjectSetting ''timelineFrameRateMismatchBehavior'',
         SetProjectSetting ''videoMonitorFormat''], None)
   \<and> sync_project demo_host demo_project False False False
     = ([SetProjectSetting ''timelineFrameRate'',
         SetProjectSetting ''timelineFrameRateMismatchBehavior'',
         SetProjectSetting ''videoMonitorFormat''], None)"
  by (simp add: sync_project_def demo_host_def demo_project_def locate_or_create_project_def
      project_setting_keys_def Let_def)

section \<open>Properties of the clustering\<close>

lemma photos_make_cluster [simp]: "photos (make_cluster ps) = ps"
  by (simp add: make_cluster_def)

lemma gaps_below_snoc:
  "g \<noteq> [] \<Longrightarrow>
   gaps_below tg (g @ [p]) =
     (gaps_below tg g
      \<and> calculate_time_delta (photo_date (last g)) (photo_date p) (unit tg) < amount tg)"
  by (induction tg g rule: gaps_below.induct) auto

lemma split_at_gaps_last:
  "split_at_gaps tg (gs @ [g]) \<Longrightarrow> gaps_below tg g"
  by (induction tg gs rule: split_at_gaps.induct) auto

lemma split_at_gaps_close:
  "split_at_gaps tg (gs @ [g]) \<Longrightarrow> h \<noteq> [] \<Longrightarrow> gaps_below tg h \<Longrightarrow>
   amount tg \<le> calculate_time_delta (photo_date (last g)) (photo_date (hd h)) (unit tg) \<Longrightarrow>
   split_at_gaps tg (gs @ [g, h])"
  by (induction tg gs rule: split_at_gaps.induct) auto

lemma split_at_gaps_extend:
  "split_at_gaps tg (gs @ [g]) \<Longrightarrow> g \<noteq> [] \<Longrightarrow> gaps_below tg (g @ [p]) \<Longrightarrow>
   split_at_gaps tg (gs @ [g @ [p]])"
  by (induction tg gs rule: split_at_gaps.induct) auto

text \<open>
  The loop invariant: the closed clusters followed by the cluster being built are split at
  the gaps, and together with the photos still to come they are the input.
\<close>

lemma minimum_gap_loop_split:
  "cur \<noteq> [] \<Longrightarrow> last cur = prev \<Longrightarrow> split_at_gaps tg (map photos clusters @ [cur]) \<Longrightarrow>
   split_at_gaps tg (map photos (minimum_gap_loop tg prev cur clusters rest))
   \<and> concat (map photos (minimum_gap_loop tg prev cur clusters rest))
       = concat (map photos clusters) @ cur @ rest"
proof (induction rest arbitrary: prev cur clusters)
  case Nil
  then show ?case by simp
next
  case (Cons p rest)
  have gb: "gaps_below tg cur"
    using Cons.prems(3) by (rule split_at_gaps_last)
  show ?case
  proof (cases "amount tg \<le> calculate_time_delta (photo_date prev) (photo_date p) (unit tg)")
    case True
    have "split_at_gaps tg (map photos clusters @ [cur, [p]])"
      using split_at_gaps_close[OF Cons.prems(3), of "[p]"] True Cons.prems(2) by simp
    then have "split_at_gaps tg (map photos (clusters @ [make_cluster cur]) @ [[p]])"
      by simp
    from Cons.IH[OF _ _ this] True show ?thesis by simp
  next
    case False
    have "gaps_below tg (cur @ [p])"
      using gb False Cons.prems(1,2) by (simp add: gaps_below_snoc)
    from split_at_gaps_extend[OF Cons.prems(3) Cons.prems(1) this]
    have "split_at_gaps tg (map photos clusters @ [cur @ [p]])" .
    from Cons.IH[OF _ _ this] False show ?thesis by simp
  qed
qed

lemma minimum_gap_split:
  "concat (map photos (cluster_photos_by_minimum_gap ps tg)) = ps
   \<and> split_at_gaps tg (map photos (cluster_photos_by_minimum_gap ps tg))"
proof (cases ps)
  case Nil
  then show ?thesis by (simp add: cluster_photos_by_minimum_gap_def)
next
  case (Cons first rest)
  from minimum_gap_loop_split[of "[first]" first tg "[]" rest] Cons
  show ?thesis by (simp add: cluster_photos_by_minimum_gap_def)
qed


section \<open>Properties of the slot assignment\<close>

subsection \<open>Python lists\<close>




lemma py_get_replicate: "py_get (replicate n v) i = Some w \<Longrightarrow> w = v"
  by (auto simp: py_get_def Let_def split: if_splits)

lemma py_get_in_range:
  "0 \<le> i \<Longrightarrow> i < int (length xs) \<Longrightarrow> py_get xs i = Some (xs ! nat i)"
  by (simp add: py_get_def)

subsection \<open>Loops\<close>

lemma for_each_invariant:
  assumes "for_each body s xs = Inr s'" and "P s"
    and "\<And>t x t'. P t \<Longrightarrow> x \<in> set xs \<Longrightarrow> body t x = Inr t' \<Longrightarrow> P t'"
  shows "P s'"
  using assms
proof (induction xs arbitrary: s)
  case Nil
  then show ?case by simp
next
  case (Cons x xs)
  from Cons.prems(1) obtain t where t: "body s x = Inr t" "for_each body t xs = Inr s'"
    by (auto split: sum.splits)
  have Pt: "P t"
    by (rule Cons.prems(3)[OF Cons.prems(2) _ t(1)]) simp
  show ?case
  proof (rule Cons.IH[OF t(2) Pt])
    fix u y u'
    assume "P u" "y \<in> set xs" "body u y = Inr u'"
    then show "P u'"
      using Cons.prems(3)[of u y u'] by simp
  qed
qed

subsection \<open>The search\<close>

lemma search_beat_free:
  "search_beat occ so stop n pref r = Inr (Some b) \<Longrightarrow>
   py_get occ b = Some False \<and> so \<le> b \<and> b < stop"
proof (induction occ so stop n pref r rule: search_beat.induct)
  case (1 occ so stop n pref r)
  let ?r = "r + 1"
  let ?cand = "if ?r mod 2 = 1 then pref - (?r div 2 + 1) else pref + ?r div 2"
  from "1.prems" have rn: "r < n"
    by (subst (asm) search_beat.simps) (simp split: if_splits)
  show ?case
  proof (cases "so \<le> ?cand \<and> ?cand < stop")
    case False
    with "1.prems" rn have "search_beat occ so stop n pref ?r = Inr (Some b)"
      by (subst (asm) search_beat.simps) (simp add: Let_def)
    with "1.IH"(2)[OF rn refl refl False] show ?thesis .
  next
    case True
    show ?thesis
    proof (cases "py_get occ ?cand")
      case None
      with "1.prems" rn True show ?thesis
        by (subst (asm) search_beat.simps) (simp add: Let_def)
    next
      case (Some occupied)
      show ?thesis
      proof (cases occupied)
        case False
        with "1.prems" rn True Some have "b = ?cand"
          by (subst (asm) search_beat.simps) (simp add: Let_def)
        with True Some False show ?thesis by simp
      next
        case occ: True
        with "1.prems" rn True Some
        have "search_beat occ so stop n pref ?r = Inr (Some b)"
          by (subst (asm) search_beat.simps) (simp add: Let_def)
        with "1.IH"(1)[OF rn refl refl True Some] occ show ?thesis by simp
      qed
    qed
  qed
qed

lemma find_available_beat_free:
  "find_available_beat occ so stop n pref = Inr (Some b) \<Longrightarrow> py_get occ b = Some False"
  by (auto simp: find_available_beat_def split: option.splits if_splits dest: search_beat_free)


subsection \<open>The steps of the two passes\<close>

lemma place_anchored_cases:
  assumes "place_anchored uid_of len so eo cid w s photo = Inr s'"
  obtains (same) "beat_occupied s' = beat_occupied s" "placements s' = placements s"
  | (placed) a where "photo_anchor photo = Some a" "so \<le> a - 1" "a - 1 < len - eo"
      "py_get (beat_occupied s) (a - 1) = Some False"
      "beat_occupied s' = py_set (beat_occupied s) (a - 1) True"
      "placements s' = placements s @ [placement_of uid_of cid True (a - 1) photo]"
  using assms
  by (auto simp: place_anchored_def placement_of_def Let_def
      split: option.splits if_splits)

lemma distribute_photo_cases:
  assumes "distribute_photo uid_of len sd ts so eo n s photo = Inr s'"
  obtains (same) "s' = s"
  | (placed) b where "py_get (beat_occupied s) b = Some False"
      "beat_occupied s' = py_set (beat_occupied s) b True"
      "placements s' = placements s @ [placement_of uid_of None False b photo]"
proof -
  let ?f = "find_available_beat (beat_occupied s) so (len - eo) n
              (preferred_beat sd ts so n (photo_date photo))"
  show thesis
  proof (cases ?f)
    case (Inl e)
    with assms show thesis by (simp add: distribute_photo_def)
  next
    case (Inr r)
    show thesis
    proof (cases r)
      case None
      with assms Inr have "s' = s" by (simp add: distribute_photo_def)
      then show thesis by (rule same)
    next
      case (Some b)
      from find_available_beat_free[of "beat_occupied s" so "len - eo" n _ b] Inr Some
      have free: "py_get (beat_occupied s) b = Some False" by simp
      from assms Inr Some
      have "s' = s\<lparr> beat_occupied := py_set (beat_occupied s) b True,
                     placements := placements s @ [placement_of uid_of None False b photo] \<rparr>"
        by (simp add: distribute_photo_def placement_of_def)
      then show thesis using free by (intro placed[of b]) simp_all
    qed
  qed
qed

lemma place_cluster_photo_alt:
  "place_cluster_photo uid_of k b photo s =
     (if held_anchored (placements s) photo then s
      else s\<lparr> placements := placements s @ [placement_of uid_of (Some k) False b photo] \<rparr>)"
  by (simp add: place_cluster_photo_def held_anchored_def placement_of_def)

lemma held_anchored_snoc_free:
  "\<not> is_anchored p \<Longrightarrow> held_anchored (pls @ [p]) photo = held_anchored pls photo"
  by (auto simp: held_anchored_def)

lemma fold_place_cluster_photo:
  "beat_occupied (fold (place_cluster_photo uid_of k b) ps s) = beat_occupied s
   \<and> placements (fold (place_cluster_photo uid_of k b) ps s)
       = placements s
         @ map (placement_of uid_of (Some k) False b)
             (filter (\<lambda>ph. \<not> held_anchored (placements s) ph) ps)"
proof (induction ps arbitrary: s)
  case Nil
  then show ?case by simp
next
  case (Cons ph ps)
  show ?case
  proof (cases "held_anchored (placements s) ph")
    case True
    then show ?thesis using Cons.IH[of s] by (simp add: place_cluster_photo_alt)
  next
    case False
    let ?p = "placement_of uid_of (Some k) False b ph"
    let ?s = "s\<lparr> placements := placements s @ [?p] \<rparr>"
    have na: "\<not> is_anchored ?p" by (simp add: placement_of_def)
    have "held_anchored (placements ?s) = held_anchored (placements s)"
      using held_anchored_snoc_free[OF na] by (simp add: fun_eq_iff)
    then show ?thesis using Cons.IH[of ?s] False by (simp add: place_cluster_photo_alt)
  qed
qed

lemma distribute_cluster_cases:
  assumes "distribute_cluster uid_of len sd ts so eo n s ic = Inr s'"
  obtains (same) "s' = s"
  | (placed) b where "py_get (beat_occupied s) b = Some False"
      "beat_occupied s' = py_set (beat_occupied s) b True"
      "placements s' = placements s
         @ map (placement_of uid_of (Some (fst ic)) False b)
             (filter (\<lambda>ph. \<not> held_anchored (placements s) ph) (photos (snd ic)))"
proof (cases "representative_date (snd ic)")
  case None
  with assms show thesis by (simp add: distribute_cluster_def)
next
  case (Some d)
  let ?f = "find_available_beat (beat_occupied s) so (len - eo) n
              (preferred_beat sd ts so n d)"
  show thesis
  proof (cases ?f)
    case (Inl e)
    with assms Some show thesis by (simp add: distribute_cluster_def)
  next
    case (Inr r)
    show thesis
    proof (cases r)
      case None
      with assms Some Inr have "s' = s" by (simp add: distribute_cluster_def)
      then show thesis by (rule same)
    next
      case b: (Some b)
      from find_available_beat_free[of "beat_occupied s" so "len - eo" n _ b] Inr b
      have free: "py_get (beat_occupied s) b = Some False" by simp
      let ?s = "s\<lparr> beat_occupied := py_set (beat_occupied s) b True \<rparr>"
      from assms Some Inr b
      have "s' = fold (place_cluster_photo uid_of (fst ic) b) (photos (snd ic)) ?s"
        by (simp add: distribute_cluster_def)
      then show thesis
        using free fold_place_cluster_photo[of uid_of "fst ic" b "photos (snd ic)" ?s]
        by (intro placed[of b]) simp_all
    qed
  qed
qed


subsection \<open>Uniqueness\<close>










lemma original_run:
  assumes "map_photos_to_beats_original uid_of ps beats sd ed so eo = Inr (ws, pls)"
  obtains s1 s2 where
    "0 < ed - sd"
    "int (length (filter (in_date_range sd ed) ps))
       \<le> py_slice_len (int (length beats)) so (int (length beats) - eo)"
    "for_each (place_anchored uid_of (int (length beats)) so eo None True)
       (initial_state beats) (filter (in_date_range sd ed) ps) = Inr s1"
    "for_each (distribute_photo uid_of (int (length beats)) sd (ed - sd) so eo
         (py_slice_len (int (length beats)) so (int (length beats) - eo)))
       s1 (filter (\<lambda>photo. photo_anchor photo = None
                     \<or> \<not> (\<exists>p \<in> set (placements s1).
                              path (placement_asset p) = photo_path photo))
             (filter (in_date_range sd ed) ps)) = Inr s2"
    "ws = warnings s2" "pls = sort_key beat_index (placements s2)"
proof -
  let ?n = "py_slice_len (int (length beats)) so (int (length beats) - eo)"
  let ?F = "filter (in_date_range sd ed) ps"
  let ?p1 = "for_each (place_anchored uid_of (int (length beats)) so eo None True)
               (initial_state beats) ?F"
  note d = map_photos_to_beats_original_def Let_def
  have ts: "0 < ed - sd"
    using assms by (cases "ed - sd \<le> 0") (simp_all add: d)
  have cap: "int (length ?F) \<le> ?n"
    using assms ts by (cases "int (length ?F) > ?n") (simp_all add: d)
  obtain s1 where s1: "?p1 = Inr s1"
    using assms ts cap by (cases ?p1) (simp_all add: d)
  let ?p2 = "for_each (distribute_photo uid_of (int (length beats)) sd (ed - sd) so eo ?n)
       s1 (filter (\<lambda>photo. photo_anchor photo = None
                     \<or> \<not> (\<exists>p \<in> set (placements s1).
                              path (placement_asset p) = photo_path photo)) ?F)"
  obtain s2 where s2: "?p2 = Inr s2"
    using assms ts cap s1 by (cases ?p2) (simp_all add: d)
  have "ws = warnings s2" "pls = sort_key beat_index (placements s2)"
    using assms ts cap s1 s2 by (simp_all add: d)
  with ts cap s1 s2 show thesis by (rule that)
qed

lemma clusters_run:
  assumes "map_photo_clusters_to_beats uid_of clusters beats sd ed so eo = Inr (ws, pls)"
  obtains s1 s2 where
    "0 < ed - sd"
    "int (length clusters) \<le> py_slice_len (int (length beats)) so (int (length beats) - eo)"
    "for_each (anchor_cluster uid_of (int (length beats)) so eo)
       (initial_state beats) (enumerate 0 clusters) = Inr s1"
    "for_each (distribute_cluster uid_of (int (length beats)) sd (ed - sd) so eo
         (py_slice_len (int (length beats)) so (int (length beats) - eo)))
       s1 (filter (\<lambda>ic. \<not> (\<exists>p \<in> set (placements s1).
                              cluster_id p = Some (fst ic) \<and> is_anchored p))
             (enumerate 0 clusters)) = Inr s2"
    "ws = warnings s2"
    "pls = sort_key (\<lambda>p. (beat_index p, placement_date p)) (placements s2)"
proof -
  let ?n = "py_slice_len (int (length beats)) so (int (length beats) - eo)"
  let ?p1 = "for_each (anchor_cluster uid_of (int (length beats)) so eo)
               (initial_state beats) (enumerate 0 clusters)"
  note d = map_photo_clusters_to_beats_def Let_def
  have ts: "0 < ed - sd"
    using assms by (cases "ed - sd \<le> 0") (simp_all add: d)
  have cap: "int (length clusters) \<le> ?n"
    using assms ts by (cases "int (length clusters) > ?n") (simp_all add: d)
  obtain s1 where s1: "?p1 = Inr s1"
    using assms ts cap by (cases ?p1) (simp_all add: d)
  let ?p2 = "for_each (distribute_cluster uid_of (int (length beats)) sd (ed - sd) so eo ?n)
       s1 (filter (\<lambda>ic. \<not> (\<exists>p \<in> set (placements s1).
                              cluster_id p = Some (fst ic) \<and> is_anchored p))
             (enumerate 0 clusters))"
  obtain s2 where s2: "?p2 = Inr s2"
    using assms ts cap s1 by (cases ?p2) (simp_all add: d)
  have "ws = warnings s2"
    "pls = sort_key (\<lambda>p. (beat_index p, placement_date p)) (placements s2)"
    using assms ts cap s1 s2 by (simp_all add: d)
  with ts cap s1 s2 show thesis by (rule that)
qed




lemma demo_clusters_result:
  "map_photo_clusters_to_beats (\<lambda>p. p) demo_clusters demo_beats 0 100 0 0
   = Inr ([],
       [placement_of (\<lambda>p. p) (Some 0) False 0 (''a'', 0, None),
        placement_of (\<lambda>p. p) (Some 0) False 0 (''b'', 10, None),
        placement_of (\<lambda>p. p) (Some 1) True 1 (''c'', 90, Some 2)])"
  by code_simp




subsection \<open>Clustering keeps the photos\<close>

lemma period_groups_add_photos:
  "(\<Union>g \<in> set (period_groups_add k p gs). set (snd g)) = insert p (\<Union>g \<in> set gs. set (snd g))"
  by (induction k p gs rule: period_groups_add.induct) auto

lemma fold_period_groups_photos:
  "(\<Union>g \<in> set (fold (\<lambda>photo groups. period_groups_add (f photo) photo groups) ps gs).
      set (snd g))
   = set ps \<union> (\<Union>g \<in> set gs. set (snd g))"
  by (induction ps arbitrary: gs) (simp_all add: period_groups_add_photos)

lemma groups_to_clusters_photos:
  "(\<Union>c \<in> set (map (\<lambda>(k, g). make_cluster g) (filter (\<lambda>(k, g). g \<noteq> []) G)).
      set (photos c))
   = (\<Union>g \<in> set G. set (snd g))"
  by (induction G) auto

lemma same_period_photos:
  "(\<Union>c \<in> set (cluster_photos_by_same_period nrm ps tg). set (photos c)) = set ps"
proof -
  let ?G = "fold (\<lambda>photo groups. period_groups_add (nrm (photo_date photo) (unit tg)) photo groups)
              ps []"
  have "(\<Union>c \<in> set (cluster_photos_by_same_period nrm ps tg). set (photos c))
        = (\<Union>c \<in> set (map (\<lambda>(k, g). make_cluster g) (filter (\<lambda>(k, g). g \<noteq> []) ?G)).
             set (photos c))"
    by (simp add: cluster_photos_by_same_period_def Let_def)
  also have "\<dots> = (\<Union>g \<in> set ?G. set (snd g))"
    by (rule groups_to_clusters_photos)
  also have "\<dots> = set ps"
    using fold_period_groups_photos[of "\<lambda>photo. nrm (photo_date photo) (unit tg)" ps "[]"]
    by simp
  finally show ?thesis .
qed

lemma minimum_gap_photos:
  "(\<Union>c \<in> set (cluster_photos_by_minimum_gap ps tg). set (photos c)) = set ps"
proof -
  have "set (concat (map photos (cluster_photos_by_minimum_gap ps tg))) = set ps"
    using minimum_gap_split[of ps tg] by simp
  then show ?thesis by simp
qed

lemma time_gap_photos:
  "(\<Union>c \<in> set (cluster_photos_by_time_gap nrm ps tg). set (photos c)) = set ps"
  by (simp add: cluster_photos_by_time_gap_def same_period_photos minimum_gap_photos)

lemma time_gap_nonempty:
  "ps \<noteq> [] \<Longrightarrow> cluster_photos_by_time_gap nrm ps tg \<noteq> []"
  using time_gap_photos[of nrm ps tg] by (cases "cluster_photos_by_time_gap nrm ps tg") auto

subsection \<open>Where placements come from\<close>

lemma placed_from_placement_of:
  "photo \<in> S \<Longrightarrow> placed_from S (placement_of uid_of cid anchored b photo)"
  by (auto simp: placed_from_def placement_of_def from_photo_def)

lemma place_anchored_origin:
  assumes "place_anchored uid_of len so eo cid w s photo = Inr s'"
    "\<forall>pl \<in> set (placements s). placed_from S pl" "photo \<in> S"
  shows "\<forall>pl \<in> set (placements s'). placed_from S pl"
  using assms(1)
proof (cases rule: place_anchored_cases)
  case same
  then show ?thesis using assms(2) by simp
next
  case (placed a)
  then show ?thesis using assms(2) placed_from_placement_of[OF assms(3)] by simp
qed

lemma distribute_photo_origin:
  assumes "distribute_photo uid_of len sd ts so eo n s photo = Inr s'"
    "\<forall>pl \<in> set (placements s). placed_from S pl" "photo \<in> S"
  shows "\<forall>pl \<in> set (placements s'). placed_from S pl"
  using assms(1)
proof (cases rule: distribute_photo_cases)
  case same
  then show ?thesis using assms(2) by simp
next
  case (placed b)
  then show ?thesis using assms(2) placed_from_placement_of[OF assms(3)] by simp
qed

lemma distribute_cluster_origin:
  assumes "distribute_cluster uid_of len sd ts so eo n s ic = Inr s'"
    "\<forall>pl \<in> set (placements s). placed_from S pl" "set (photos (snd ic)) \<subseteq> S"
  shows "\<forall>pl \<in> set (placements s'). placed_from S pl"
  using assms(1)
proof (cases rule: distribute_cluster_cases)
  case same
  then show ?thesis using assms(2) by simp
next
  case (placed b)
  have "\<forall>pl \<in> set (map (placement_of uid_of (Some (fst ic)) False b)
             (filter (\<lambda>ph. \<not> held_anchored (placements s) ph) (photos (snd ic)))).
          placed_from S pl"
    using assms(3) by (auto intro: placed_from_placement_of)
  then show ?thesis using assms(2) placed(3) by auto
qed

lemma anchor_cluster_origin:
  assumes "anchor_cluster uid_of len so eo s ic = Inr s'"
    "\<forall>pl \<in> set (placements s). placed_from S pl" "set (photos (snd ic)) \<subseteq> S"
  shows "\<forall>pl \<in> set (placements s'). placed_from S pl"
proof -
  from assms(1)
  have "for_each (place_anchored uid_of len so eo (Some (fst ic)) False) s (photos (snd ic))
          = Inr s'"
    by (simp add: anchor_cluster_def)
  from this assms(2) show ?thesis
  proof (rule for_each_invariant)
    fix t x t'
    assume "\<forall>pl \<in> set (placements t). placed_from S pl" "x \<in> set (photos (snd ic))"
      "place_anchored uid_of len so eo (Some (fst ic)) False t x = Inr t'"
    then show "\<forall>pl \<in> set (placements t'). placed_from S pl"
      using place_anchored_origin[of uid_of len so eo "Some (fst ic)" False t x t' S] assms(3)
      by blast
  qed
qed

lemma enumerate_member: "ic \<in> set (enumerate 0 xs) \<Longrightarrow> snd ic \<in> set xs"
  by (metis in_set_enumerate_eq diff_zero nth_mem add_0_right)

lemma original_origin:
  assumes "map_photos_to_beats_original uid_of ps beats sd ed so eo = Inr (ws, pls)"
  shows "\<forall>pl \<in> set pls. placed_from (set (filter (in_date_range sd ed) ps)) pl"
  using assms
proof (cases rule: original_run)
  case (1 s1 s2)
  let ?S = "set (filter (in_date_range sd ed) ps)"
  let ?I = "\<lambda>s. \<forall>pl \<in> set (placements s). placed_from ?S pl"
  have "?I (initial_state beats)" by (simp add: initial_state_def)
  with 1(3) have "?I s1"
  proof (rule for_each_invariant)
    fix t x t'
    assume "?I t" "x \<in> set (filter (in_date_range sd ed) ps)"
      "place_anchored uid_of (int (length beats)) so eo None True t x = Inr t'"
    then show "?I t'"
      using place_anchored_origin[of uid_of _ so eo None True t x t' ?S] by blast
  qed
  with 1(4) have "?I s2"
  proof (rule for_each_invariant)
    fix t x t'
    assume "?I t"
      "x \<in> set (filter (\<lambda>photo. photo_anchor photo = None
                     \<or> \<not> (\<exists>p \<in> set (placements s1).
                              path (placement_asset p) = photo_path photo))
             (filter (in_date_range sd ed) ps))"
      "distribute_photo uid_of (int (length beats)) sd (ed - sd) so eo
         (py_slice_len (int (length beats)) so (int (length beats) - eo)) t x = Inr t'"
    then show "?I t'"
      using distribute_photo_origin[of uid_of _ sd _ so eo _ t x t' ?S] by simp
  qed
  moreover have "set pls = set (placements s2)" using 1(6) by simp
  ultimately show ?thesis by simp
qed

lemma clusters_origin:
  assumes "map_photo_clusters_to_beats uid_of clusters beats sd ed so eo = Inr (ws, pls)"
  shows "\<forall>pl \<in> set pls. placed_from (\<Union>c \<in> set clusters. set (photos c)) pl"
  using assms
proof (cases rule: clusters_run)
  case (1 s1 s2)
  let ?S = "\<Union>c \<in> set clusters. set (photos c)"
  let ?I = "\<lambda>s. \<forall>pl \<in> set (placements s). placed_from ?S pl"
  have sub: "set (photos (snd ic)) \<subseteq> ?S" if "ic \<in> set (enumerate 0 clusters)" for ic
    using enumerate_member[OF that] by auto
  have "?I (initial_state beats)" by (simp add: initial_state_def)
  with 1(3) have "?I s1"
  proof (rule for_each_invariant)
    fix t x t'
    assume "?I t" "x \<in> set (enumerate 0 clusters)"
      "anchor_cluster uid_of (int (length beats)) so eo t x = Inr t'"
    then show "?I t'"
      using anchor_cluster_origin[of uid_of _ so eo t x t' ?S] sub[of x] by blast
  qed
  with 1(4) have "?I s2"
  proof (rule for_each_invariant)
    fix t x t'
    assume "?I t"
      "x \<in> set (filter (\<lambda>ic. \<not> (\<exists>p \<in> set (placements s1).
                              cluster_id p = Some (fst ic) \<and> is_anchored p))
             (enumerate 0 clusters))"
      "distribute_cluster uid_of (int (length beats)) sd (ed - sd) so eo
         (py_slice_len (int (length beats)) so (int (length beats) - eo)) t x = Inr t'"
    then show "?I t'"
      using distribute_cluster_origin[of uid_of _ sd _ so eo _ t x t' ?S] sub[of x] by simp
  qed
  moreover have "set pls = set (placements s2)" using 1(6) by simp
  ultimately show ?thesis by simp
qed

lemma filter_in_date_range_idem:
  "filter (in_date_range sd ed) (filter (in_date_range sd ed) ps)
   = filter (in_date_range sd ed) ps"
  by simp

lemma map_photos_to_beats_origin:
  assumes "map_photos_to_beats nrm uid_of ps beats sd ed so eo tg = Inr (ws, pls)"
  shows "\<forall>pl \<in> set pls. placed_from (set (filter (in_date_range sd ed) ps)) pl"
proof -
  let ?F = "filter (in_date_range sd ed) ps"
  note d = map_photos_to_beats_def Let_def
  show ?thesis
  proof (cases "?F = []")
    case True
    with assms have "pls = []" by (simp add: d)
    then show ?thesis by simp
  next
    case False
    show ?thesis
    proof (cases "amount tg = 0")
      case True
      with assms False
      have "map_photos_to_beats_original uid_of ?F beats sd ed so eo = Inr (ws, pls)"
        by (simp add: d)
      from original_origin[OF this] show ?thesis by simp
    next
      case nz: False
      with assms False
      have "map_photo_clusters_to_beats uid_of (cluster_photos_by_time_gap nrm ?F tg)
              beats sd ed so eo = Inr (ws, pls)"
        by (simp add: d)
      from clusters_origin[OF this] show ?thesis
        by (simp only: time_gap_photos)
    qed
  qed
qed

text \<open>
  C10 (implicit date-range filtering). \<open>map_photos_to_beats\<close> gives the result it gives
  on the photos inside \<open>[start_date, end_date]\<close> alone, so the photos outside are removed
  before any clustering or assignment; when no photo is inside it returns the empty
  placement list with the warning and no error; and every placement of a run that is not
  ended by an error holds the path and the date of a photo inside the interval, so a photo
  outside never appears in the output.
\<close>

theorem date_range_filtering:
  "map_photos_to_beats nrm uid_of ps beats sd ed so eo tg
     = map_photos_to_beats nrm uid_of (filter (in_date_range sd ed) ps) beats sd ed so eo tg
   \<and> (filter (in_date_range sd ed) ps = [] \<longrightarrow>
        map_photos_to_beats nrm uid_of ps beats sd ed so eo tg = Inr ([NoPhotosInRange], []))
   \<and> (map_photos_to_beats nrm uid_of ps beats sd ed so eo tg = Inr (ws, pls) \<longrightarrow>
        (\<forall>pl \<in> set pls. \<exists>photo \<in> set ps.
            sd \<le> photo_date photo \<and> photo_date photo \<le> ed
            \<and> path (placement_asset pl) = photo_path photo
            \<and> placement_date pl = photo_date photo))"
proof (intro conjI impI)
  show "map_photos_to_beats nrm uid_of ps beats sd ed so eo tg
     = map_photos_to_beats nrm uid_of (filter (in_date_range sd ed) ps) beats sd ed so eo tg"
    by (simp add: map_photos_to_beats_def)
next
  assume "filter (in_date_range sd ed) ps = []"
  then show "map_photos_to_beats nrm uid_of ps beats sd ed so eo tg
               = Inr ([NoPhotosInRange], [])"
    by (simp add: map_photos_to_beats_def)
next
  assume "map_photos_to_beats nrm uid_of ps beats sd ed so eo tg = Inr (ws, pls)"
  from map_photos_to_beats_origin[OF this]
  show "\<forall>pl \<in> set pls. \<exists>photo \<in> set ps.
            sd \<le> photo_date photo \<and> photo_date photo \<le> ed
            \<and> path (placement_asset pl) = photo_path photo
            \<and> placement_date pl = photo_date photo"
    by (auto simp: placed_from_def in_date_range_def)
qed


lemma demo_filter_result:
  "map_photos_to_beats (\<lambda>d u. d) (\<lambda>p. p) [(''a'', 50, None), (''z'', 200, None)] demo_beats
     0 100 0 0 demo_time_gap
   = Inr ([], [placement_of (\<lambda>p. p) None False 2 (''a'', 50, None)])"
  by code_simp

theorem date_range_filtering_witness:
  "filter (in_date_range 0 100) [(''z'', 200, None)] = []
   \<and> map_photos_to_beats (\<lambda>d u. d) (\<lambda>p. p) [(''z'', 200, None)] demo_beats 0 100 0 0
        demo_time_gap = Inr ([NoPhotosInRange], [])
   \<and> map_photos_to_beats (\<lambda>d u. d) (\<lambda>p. p) [(''a'', 50, None), (''z'', 200, None)] demo_beats
        0 100 0 0 demo_time_gap
       = Inr ([], [placement_of (\<lambda>p. p) None False 2 (''a'', 50, None)])
   \<and> (\<exists>photo \<in> set [(''a'', 50, None), (''z'', 200, None)].
         0 \<le> photo_date photo \<and> photo_date photo \<le> 100
         \<and> path (placement_asset (placement_of (\<lambda>p. p) None False 2 (''a'', 50, None)))
             = photo_path photo
         \<and> placement_date (placement_of (\<lambda>p. p) None False 2 (''a'', 50, None))
             = photo_date photo)"
proof -
  have e: "filter (in_date_range 0 100) [(''z'', 200, None)] = []"
    by (simp add: in_date_range_def photo_date_def)
  note t1 = date_range_filtering [of "\<lambda>d u. d" "\<lambda>p. p" "[(''z'', 200, None)]" demo_beats
      0 100 0 0 demo_time_gap]
  note t2 = date_range_filtering [of "\<lambda>d u. d" "\<lambda>p. p"
      "[(''a'', 50, None), (''z'', 200, None)]" demo_beats 0 100 0 0 demo_time_gap
      "[]" "[placement_of (\<lambda>p. p) None False 2 (''a'', 50, None)]"]
  note r1 = t1 [THEN conjunct2, THEN conjunct1, THEN mp, OF e]
  note r2 = t2 [THEN conjunct2, THEN conjunct2, THEN mp, OF demo_filter_result]
  from r2 have "\<exists>photo \<in> set [(''a'', 50, None), (''z'', 200, None)].
         0 \<le> photo_date photo \<and> photo_date photo \<le> 100
         \<and> path (placement_asset (placement_of (\<lambda>p. p) None False 2 (''a'', 50, None)))
             = photo_path photo
         \<and> placement_date (placement_of (\<lambda>p. p) None False 2 (''a'', 50, None))
             = photo_date photo"
    by simp
  with e r1 demo_filter_result show ?thesis by blast
qed

subsection \<open>An empty effective range\<close>

lemma py_slice_len_empty:
  "0 \<le> so \<Longrightarrow> 0 \<le> eo \<Longrightarrow> eo \<le> n \<Longrightarrow> n - so - eo \<le> 0 \<Longrightarrow> py_slice_len n so (n - eo) = 0"
  by (auto simp: py_slice_len_def py_slice_bound_def)

text \<open>
  C9 (a non-positive effective range is a configuration error), as the claim states it,
  fails: with five beats, a start offset of 3 and an end offset of 2 the effective range is
  empty, and with no photo inside the date range \<open>map_photos_to_beats\<close> returns the empty
  placement list and no error.
\<close>

theorem no_photo_in_range_no_error:
  "int (length demo_beats) - 3 - 2 \<le> 0
   \<and> map_photos_to_beats (\<lambda>d u. d) (\<lambda>p. p) [(''z'', 200, None)] demo_beats 0 100 3 2
        demo_time_gap = Inr ([NoPhotosInRange], [])"
  by code_simp

text \<open>
  C9, amended. The source has no check of the effective range of its own. When the offsets
  are not negative, the end offset is at most the number of beats, the effective range
  \<open>len(beats) - start_offset - end_offset\<close> is not positive and at least one photo lies
  inside the date range, \<open>map_photos_to_beats\<close> ends with an error and places nothing:
  the time-span error when the end date is not after the start date, and else the capacity
  error with zero available beats (too many photos when clustering is disabled, too many
  clusters otherwise, raised after the date filter and the clustering).
\<close>

theorem empty_range_capacity_error:
  assumes "0 \<le> so" "0 \<le> eo" "eo \<le> int (length beats)"
    and "int (length beats) - so - eo \<le> 0"
    and "filter (in_date_range sd ed) ps \<noteq> []"
  shows "map_photos_to_beats nrm uid_of ps beats sd ed so eo tg =
           (if ed - sd \<le> 0 then Inl InvalidTimeSpan
            else if amount tg = 0
            then Inl (TooManyPhotos (int (length (filter (in_date_range sd ed) ps))) 0)
            else Inl (TooManyClusters
                        (int (length (cluster_photos_by_time_gap nrm
                                        (filter (in_date_range sd ed) ps) tg))) 0))"
proof -
  let ?F = "filter (in_date_range sd ed) ps"
  let ?C = "cluster_photos_by_time_gap nrm ?F tg"
  have n: "py_slice_len (int (length beats)) so (int (length beats) - eo) = 0"
    using assms(1-4) by (rule py_slice_len_empty)
  have lf: "0 < int (length ?F)" using assms(5) by simp
  have lc: "0 < int (length ?C)" using time_gap_nonempty[OF assms(5), of nrm tg] by simp
  show ?thesis
  proof (cases "ed - sd \<le> 0")
    case True
    then show ?thesis
      using assms(5)
      by (simp add: map_photos_to_beats_def map_photos_to_beats_original_def
          map_photo_clusters_to_beats_def Let_def)
  next
    case False
    show ?thesis
    proof (cases "amount tg = 0")
      case True
      with False assms(5) n lf show ?thesis
        by (simp add: map_photos_to_beats_def map_photos_to_beats_original_def Let_def)
    next
      case nz: False
      with False assms(5) n lc show ?thesis
        by (simp add: map_photos_to_beats_def map_photo_clusters_to_beats_def Let_def)
    qed
  qed
qed

theorem empty_range_capacity_error_witness:
  "(0::int) \<le> 3 \<and> (0::int) \<le> 2 \<and> 2 \<le> int (length demo_beats)
   \<and> int (length demo_beats) - 3 - 2 \<le> 0
   \<and> filter (in_date_range 0 100) [(''a'', 50, None)] \<noteq> []
   \<and> map_photos_to_beats (\<lambda>d u. d) (\<lambda>p. p) [(''a'', 50, None)] demo_beats 0 100 3 2
        demo_time_gap = Inl (TooManyPhotos 1 0)"
proof -
  have h: "(0::int) \<le> 3" "(0::int) \<le> 2" "2 \<le> int (length demo_beats)"
    "int (length demo_beats) - 3 - 2 \<le> 0"
    "filter (in_date_range 0 100) [(''a'', 50, None)] \<noteq> []"
    by (simp_all add: demo_beats_def in_date_range_def photo_date_def)
  from empty_range_capacity_error [OF h, of "\<lambda>d u. d" "\<lambda>p. p" demo_time_gap] h
  show ?thesis
    by (simp add: demo_time_gap_def in_date_range_def photo_date_def)
qed

subsection \<open>The search does not reach every free beat\<close>

text \<open>
  The capacity check itself comes before both passes: more clusters (or photos inside the
  date range) than effective beats end the run with the capacity error, as six singleton
  clusters against five beats do.
\<close>

lemma capacity_checked_first:
  "0 < ed - sd \<Longrightarrow>
   int (length clusters) > py_slice_len (int (length beats)) so (int (length beats) - eo) \<Longrightarrow>
   map_photo_clusters_to_beats uid_of clusters beats sd ed so eo
     = Inl (TooManyClusters (int (length clusters))
              (py_slice_len (int (length beats)) so (int (length beats) - eo)))"
  by (simp add: map_photo_clusters_to_beats_def Let_def)

lemma capacity_checked_first_original:
  "0 < ed - sd \<Longrightarrow>
   int (length (filter (in_date_range sd ed) ps))
     > py_slice_len (int (length beats)) so (int (length beats) - eo) \<Longrightarrow>
   map_photos_to_beats_original uid_of ps beats sd ed so eo
     = Inl (TooManyPhotos (int (length (filter (in_date_range sd ed) ps)))
              (py_slice_len (int (length beats)) so (int (length beats) - eo)))"
  by (simp add: map_photos_to_beats_original_def Let_def)

lemma six_clusters_five_beats:
  "map_photo_clusters_to_beats (\<lambda>p. p)
     (map (\<lambda>photo. make_cluster [photo])
        [(''a'', 0, None), (''b'', 20, None), (''c'', 40, None), (''d'', 60, None),
         (''e'', 80, None), (''f'', 100, None)])
     demo_beats 0 100 0 0
   = Inl (TooManyClusters 6 5)"
  by code_simp

text \<open>
  C5 (capacity is a precondition, never a mid-search failure) does not hold of the search:
  five photos pass the capacity check against five effective beats, four of them prefer
  beat 0, and the fourth, \<open>d\<close>, is dropped although beats 3 and 4 are free. The search
  stops when \<open>search_radius\<close> reaches the number of effective beats, and a radius \<open>r\<close>
  only reaches the distance \<open>(r + 1) div 2\<close> from the preferred beat.
\<close>

theorem spiral_search_drops_photo:
  "int (length demo_photos)
     \<le> py_slice_len (int (length demo_beats)) 0 (int (length demo_beats) - 0)
   \<and> map_photos_to_beats_original (\<lambda>p. p) demo_photos demo_beats 0 100 0 0
     = Inr ([],
         [placement_of (\<lambda>p. p) None False 0 (''a'', 0, None),
          placement_of (\<lambda>p. p) None False 1 (''b'', 0, None),
          placement_of (\<lambda>p. p) None False 2 (''c'', 0, None),
          placement_of (\<lambda>p. p) None False 4 (''e'', 100, None)])
   \<and> (''d'', 0, None) \<in> set demo_photos
   \<and> find_available_beat [True, True, True, False, False] 0 5 5 0 = Inr None"
  by code_simp

subsection \<open>Pin priority\<close>


















subsection \<open>Cluster co-location\<close>

lemma placement_of_simps [simp]:
  "beat_index (placement_of uid_of cid anchored b photo) = b"
  "is_anchored (placement_of uid_of cid anchored b photo) = anchored"
  "cluster_id (placement_of uid_of cid anchored b photo) = cid"
  "placement_date (placement_of uid_of cid anchored b photo) = photo_date photo"
  "path (placement_asset (placement_of uid_of cid anchored b photo)) = photo_path photo"
  by (simp_all add: placement_of_def from_photo_def)

lemma enumerate_nth:
  "ic \<in> set (enumerate 0 xs) \<Longrightarrow> fst ic < length xs \<and> xs ! fst ic = snd ic"
  by (simp add: in_set_enumerate_eq)

lemma place_anchored_from:
  assumes "place_anchored uid_of len so eo (Some j) w s x = Inr s'"
    "\<forall>p \<in> set (placements s). anchored_from uid_of clusters p"
    "j < length clusters" "x \<in> set (photos (clusters ! j))"
  shows "\<forall>p \<in> set (placements s'). anchored_from uid_of clusters p"
  using assms(1)
proof (cases rule: place_anchored_cases)
  case same
  then show ?thesis using assms(2) by simp
next
  case (placed a)
  have "anchored_from uid_of clusters (placement_of uid_of (Some j) True (a - 1) x)"
    unfolding anchored_from_def using assms(3,4) placed(1) by blast
  then show ?thesis using assms(2) placed(6) by simp
qed

lemma anchor_cluster_from:
  assumes "anchor_cluster uid_of len so eo s ic = Inr s'"
    "\<forall>p \<in> set (placements s). anchored_from uid_of clusters p"
    "ic \<in> set (enumerate 0 clusters)"
  shows "\<forall>p \<in> set (placements s'). anchored_from uid_of clusters p"
proof -
  from assms(1)
  have "for_each (place_anchored uid_of len so eo (Some (fst ic)) False) s (photos (snd ic))
          = Inr s'"
    by (simp add: anchor_cluster_def)
  from this assms(2) show ?thesis
  proof (rule for_each_invariant)
    fix t x t'
    assume "\<forall>p \<in> set (placements t). anchored_from uid_of clusters p"
      "x \<in> set (photos (snd ic))"
      "place_anchored uid_of len so eo (Some (fst ic)) False t x = Inr t'"
    then show "\<forall>p \<in> set (placements t'). anchored_from uid_of clusters p"
      using place_anchored_from[of uid_of len so eo "fst ic" False t x t' clusters]
        enumerate_nth[OF assms(3)] by simp
  qed
qed

lemma distinct_across:
  "distinct (map f (concat xss)) \<Longrightarrow> i < length xss \<Longrightarrow> j < length xss \<Longrightarrow>
   x \<in> set (xss ! i) \<Longrightarrow> y \<in> set (xss ! j) \<Longrightarrow> f x = f y \<Longrightarrow> i = j"
proof (induction xss arbitrary: i j)
  case Nil
  then show ?case by simp
next
  case (Cons xs xss)
  have disj: "f ` set xs \<inter> f ` set (concat xss) = {}" and d: "distinct (map f (concat xss))"
    using Cons.prems(1) by auto
  show ?case
  proof (cases i)
    case i0: 0
    show ?thesis
    proof (cases j)
      case 0
      with i0 show ?thesis by simp
    next
      case (Suc j')
      with Cons.prems(3,5) have "y \<in> set (concat xss)" by auto
      moreover have "x \<in> set xs" using i0 Cons.prems(4) by simp
      ultimately show ?thesis using disj Cons.prems(6) by (metis disjoint_iff imageI)
    qed
  next
    case (Suc i')
    show ?thesis
    proof (cases j)
      case 0
      from Suc Cons.prems(2,4) have "x \<in> set (concat xss)" by auto
      moreover have "y \<in> set xs" using 0 Cons.prems(5) by simp
      ultimately show ?thesis using disj Cons.prems(6) by (metis disjoint_iff imageI)
    next
      case j: (Suc j')
      from Cons.IH[OF d, of i' j'] Suc j Cons.prems(2-6) show ?thesis by simp
    qed
  qed
qed

lemma held_anchored_append_free:
  "\<forall>p \<in> set new. \<not> is_anchored p \<Longrightarrow> held_anchored (pls @ new) ph = held_anchored pls ph"
  by (auto simp: held_anchored_def)


lemma chrono_step:
  assumes inv: "chrono_inv uid_of A U0 (ic # U') t"
    and step: "distribute_cluster uid_of len sd ts so eo n t ic = Inr t1"
    and ic: "ic \<in> set U0" and fresh: "fst ic \<notin> fst ` set U'"
    and nh: "\<forall>ph \<in> set (photos (snd ic)). \<not> held_anchored A ph"
  shows "chrono_inv uid_of A U0 U' t1"
proof -
  from inv have i1: "\<forall>p \<in> set (placements t). is_anchored p \<longrightarrow> p \<in> set A"
    and i2: "\<forall>ph. held_anchored (placements t) ph = held_anchored A ph"
    and i3: "\<forall>p \<in> set (placements t). \<not> is_anchored p \<longrightarrow>
            (\<exists>jc \<in> set U0. cluster_id p = Some (fst jc) \<and> fst jc \<notin> fst ` set (ic # U')
               \<and> (\<forall>ph \<in> set (photos (snd jc)).
                     placement_of uid_of (Some (fst jc)) False (beat_index p) ph
                       \<in> set (placements t)))"
    and i4: "\<forall>p \<in> set (placements t). \<forall>p' \<in> set (placements t).
            \<not> is_anchored p \<and> \<not> is_anchored p' \<and> cluster_id p = cluster_id p'
            \<longrightarrow> beat_index p = beat_index p'"
    unfolding chrono_inv_def by blast+
  from step show ?thesis
  proof (cases rule: distribute_cluster_cases)
    case same
    have "\<forall>p \<in> set (placements t). \<not> is_anchored p \<longrightarrow>
            (\<exists>jc \<in> set U0. cluster_id p = Some (fst jc) \<and> fst jc \<notin> fst ` set U'
               \<and> (\<forall>ph \<in> set (photos (snd jc)).
                     placement_of uid_of (Some (fst jc)) False (beat_index p) ph
                       \<in> set (placements t)))"
      using i3 by fastforce
    with i1 i2 i4 same show ?thesis unfolding chrono_inv_def by blast
  next
    case (placed b)
    let ?mk = "placement_of uid_of (Some (fst ic)) False b"
    let ?new = "map ?mk (photos (snd ic))"
    have "\<forall>ph \<in> set (photos (snd ic)). \<not> held_anchored (placements t) ph"
      using nh i2 by blast
    then have "filter (\<lambda>ph. \<not> held_anchored (placements t) ph) (photos (snd ic))
                 = photos (snd ic)"
      by (simp only: filter_id_conv)
    with placed(3) have pl: "placements t1 = placements t @ ?new" by simp
    have new_free: "\<forall>p \<in> set ?new. \<not> is_anchored p" by simp
    have new_id: "\<forall>p \<in> set ?new. cluster_id p = Some (fst ic) \<and> beat_index p = b" by simp
    have c1: "\<forall>p \<in> set (placements t1). is_anchored p \<longrightarrow> p \<in> set A"
      using i1 new_free pl by auto
    have c2: "\<forall>ph. held_anchored (placements t1) ph = held_anchored A ph"
      using i2 held_anchored_append_free[OF new_free] pl by simp
    have c3: "\<forall>p \<in> set (placements t1). \<not> is_anchored p \<longrightarrow>
            (\<exists>jc \<in> set U0. cluster_id p = Some (fst jc) \<and> fst jc \<notin> fst ` set U'
               \<and> (\<forall>ph \<in> set (photos (snd jc)).
                     placement_of uid_of (Some (fst jc)) False (beat_index p) ph
                       \<in> set (placements t1)))"
    proof (intro ballI impI)
      fix p assume p: "p \<in> set (placements t1)" "\<not> is_anchored p"
      show "\<exists>jc \<in> set U0. cluster_id p = Some (fst jc) \<and> fst jc \<notin> fst ` set U'
               \<and> (\<forall>ph \<in> set (photos (snd jc)).
                     placement_of uid_of (Some (fst jc)) False (beat_index p) ph
                       \<in> set (placements t1))"
      proof (cases "p \<in> set (placements t)")
        case True
        with i3 p(2) obtain jc where jc: "jc \<in> set U0" "cluster_id p = Some (fst jc)"
          "fst jc \<notin> fst ` set (ic # U')"
          "\<forall>ph \<in> set (photos (snd jc)).
             placement_of uid_of (Some (fst jc)) False (beat_index p) ph \<in> set (placements t)"
          by blast
        from jc(3) have "fst jc \<notin> fst ` set U'" by simp
        moreover from jc(4) pl
        have "\<forall>ph \<in> set (photos (snd jc)).
             placement_of uid_of (Some (fst jc)) False (beat_index p) ph \<in> set (placements t1)"
          by simp
        ultimately show ?thesis using jc(1,2) by blast
      next
        case False
        with p(1) pl have pn: "p \<in> set ?new" by simp
        with new_id have "cluster_id p = Some (fst ic)" "beat_index p = b" by blast+
        moreover have "\<forall>ph \<in> set (photos (snd ic)). ?mk ph \<in> set (placements t1)"
          using pl by simp
        ultimately show ?thesis using ic fresh by blast
      qed
    qed
    have c4: "\<forall>p \<in> set (placements t1). \<forall>p' \<in> set (placements t1).
            \<not> is_anchored p \<and> \<not> is_anchored p' \<and> cluster_id p = cluster_id p'
            \<longrightarrow> beat_index p = beat_index p'"
    proof (intro ballI impI, elim conjE)
      fix p p' assume p: "p \<in> set (placements t1)" "p' \<in> set (placements t1)"
        "\<not> is_anchored p" "\<not> is_anchored p'" "cluster_id p = cluster_id p'"
      have old_id: "cluster_id r \<noteq> Some (fst ic)"
        if "r \<in> set (placements t)" "\<not> is_anchored r" for r
        using i3 that by fastforce
      consider "p \<in> set (placements t)" "p' \<in> set (placements t)"
        | "p \<in> set ?new" "p' \<in> set ?new"
        | "p \<in> set (placements t)" "p' \<in> set ?new"
        | "p \<in> set ?new" "p' \<in> set (placements t)"
        using p(1,2) pl by auto
      then show "beat_index p = beat_index p'"
      proof cases
        case 1
        with i4 p(3,4,5) show ?thesis by blast
      next
        case 2
        from new_id 2 have "beat_index p = b" "beat_index p' = b" by blast+
        then show ?thesis by simp
      next
        case 3
        from new_id 3(2) have "cluster_id p' = Some (fst ic)" by blast
        with old_id[OF 3(1) p(3)] p(5) show ?thesis by simp
      next
        case 4
        from new_id 4(1) have "cluster_id p = Some (fst ic)" by blast
        with old_id[OF 4(2) p(4)] p(5) show ?thesis by simp
      qed
    qed
    from c1 c2 c3 c4 show ?thesis unfolding chrono_inv_def by blast
  qed
qed

lemma chrono_pass:
  assumes "for_each (distribute_cluster uid_of len sd ts so eo n) t U = Inr t'"
    "chrono_inv uid_of A U0 U t" "set U \<subseteq> set U0" "distinct (map fst U)"
    "\<forall>ic \<in> set U. \<forall>ph \<in> set (photos (snd ic)). \<not> held_anchored A ph"
  shows "chrono_inv uid_of A U0 [] t'"
  using assms
proof (induction U arbitrary: t)
  case Nil
  then show ?case by simp
next
  case (Cons ic U)
  from Cons.prems(1) obtain t1 where
    t1: "distribute_cluster uid_of len sd ts so eo n t ic = Inr t1"
        "for_each (distribute_cluster uid_of len sd ts so eo n) t1 U = Inr t'"
    by (auto split: sum.splits)
  have "chrono_inv uid_of A U0 U t1"
    using Cons.prems(2) t1(1)
  proof (rule chrono_step)
    show "ic \<in> set U0" using Cons.prems(3) by simp
    show "fst ic \<notin> fst ` set U" using Cons.prems(4) by auto
    show "\<forall>ph \<in> set (photos (snd ic)). \<not> held_anchored A ph" using Cons.prems(5) by simp
  qed
  moreover have "set U \<subseteq> set U0" "distinct (map fst U)"
    "\<forall>ic \<in> set U. \<forall>ph \<in> set (photos (snd ic)). \<not> held_anchored A ph"
    using Cons.prems(3,4,5) by simp_all
  ultimately show ?case using Cons.IH[OF t1(2)] by blast
qed


lemma anchored_from_props:
  assumes "anchored_from uid_of clusters p"
  shows "is_anchored p"
    and "\<exists>j photo. j < length clusters \<and> photo \<in> set (photos (clusters ! j))
       \<and> cluster_id p = Some j \<and> path (placement_asset p) = photo_path photo"
proof -
  from assms obtain j photo a where
    jp: "j < length clusters" "photo \<in> set (photos (clusters ! j))"
        "p = placement_of uid_of (Some j) True (a - 1) photo"
    unfolding anchored_from_def by blast
  from jp(3) show "is_anchored p" by simp
  from jp(3) have "cluster_id p = Some j" "path (placement_asset p) = photo_path photo"
    by simp_all
  with jp(1,2)
  show "\<exists>j photo. j < length clusters \<and> photo \<in> set (photos (clusters ! j))
       \<and> cluster_id p = Some j \<and> path (placement_asset p) = photo_path photo"
    by blast
qed

lemma distribute_cluster_anchored:
  assumes "distribute_cluster uid_of len sd ts so eo n s ic = Inr s'"
    "\<forall>p \<in> set (placements s). is_anchored p \<longrightarrow> Q p"
  shows "\<forall>p \<in> set (placements s'). is_anchored p \<longrightarrow> Q p"
  using assms(1)
proof (cases rule: distribute_cluster_cases)
  case same
  then show ?thesis using assms(2) by simp
next
  case (placed b)
  then show ?thesis using assms(2) by auto
qed

lemma pin_pass_anchored_from:
  assumes "for_each (anchor_cluster uid_of len so eo) (initial_state beats)
             (enumerate 0 clusters) = Inr s1"
  shows "\<forall>p \<in> set (placements s1). anchored_from uid_of clusters p"
proof -
  have "\<forall>p \<in> set (placements (initial_state beats)). anchored_from uid_of clusters p"
    by (simp add: initial_state_def)
  with assms show ?thesis
  proof (rule for_each_invariant)
    fix t x t'
    assume "\<forall>p \<in> set (placements t). anchored_from uid_of clusters p"
      "x \<in> set (enumerate 0 clusters)" "anchor_cluster uid_of len so eo t x = Inr t'"
    then show "\<forall>p \<in> set (placements t'). anchored_from uid_of clusters p"
      using anchor_cluster_from[of uid_of len so eo t x t' clusters] by blast
  qed
qed

lemma clusters_anchored_from:
  assumes "map_photo_clusters_to_beats uid_of clusters beats sd ed so eo = Inr (ws, pls)"
  shows "\<forall>p \<in> set pls. is_anchored p \<longrightarrow> anchored_from uid_of clusters p"
  using assms
proof (cases rule: clusters_run)
  case (1 s1 s2)
  from pin_pass_anchored_from[OF 1(3)]
  have "\<forall>p \<in> set (placements s1). is_anchored p \<longrightarrow> anchored_from uid_of clusters p"
    by blast
  with 1(4) have "\<forall>p \<in> set (placements s2). is_anchored p \<longrightarrow> anchored_from uid_of clusters p"
    by (rule for_each_invariant) (rule distribute_cluster_anchored)
  moreover have "set pls = set (placements s2)" using 1(6) by simp
  ultimately show ?thesis by simp
qed

lemma clusters_chrono:
  assumes run: "map_photo_clusters_to_beats uid_of clusters beats sd ed so eo = Inr (ws, pls)"
    and dist: "distinct (map photo_path (concat (map photos clusters)))"
    and q: "q \<in> set pls" "\<not> is_anchored q" "cluster_id q = Some k"
  shows "k < length clusters
     \<and> (\<forall>photo \<in> set (photos (clusters ! k)).
           placement_of uid_of (Some k) False (beat_index q) photo \<in> set pls)
     \<and> (\<forall>p \<in> set pls. cluster_id p = Some k \<longrightarrow> beat_index p = beat_index q)"
  using run
proof (cases rule: clusters_run)
  case (1 s1 s2)
  let ?A = "placements s1"
  let ?U = "filter (\<lambda>ic. \<not> (\<exists>p \<in> set (placements s1).
                              cluster_id p = Some (fst ic) \<and> is_anchored p))
             (enumerate 0 clusters)"
  have af: "\<forall>p \<in> set ?A. anchored_from uid_of clusters p"
    by (rule pin_pass_anchored_from[OF 1(3)])
  have unassigned: "\<not> (cluster_id p = Some (fst ic) \<and> is_anchored p)"
    if "ic \<in> set ?U" "p \<in> set ?A" for ic p
    using that by auto
  have enum: "fst ic < length clusters \<and> clusters ! fst ic = snd ic" if "ic \<in> set ?U" for ic
    using that enumerate_nth[of ic clusters] by simp
  have inv0: "chrono_inv uid_of ?A ?U ?U s1"
    unfolding chrono_inv_def using af anchored_from_props(1) by blast
  have dU: "distinct (map fst ?U)"
    by (rule distinct_map_filter) simp
  have nh: "\<forall>ic \<in> set ?U. \<forall>ph \<in> set (photos (snd ic)). \<not> held_anchored ?A ph"
  proof (intro ballI notI)
    fix ic ph assume ic: "ic \<in> set ?U" and ph: "ph \<in> set (photos (snd ic))"
      and "held_anchored ?A ph"
    then obtain p where p: "p \<in> set ?A" "path (placement_asset p) = photo_path ph"
      "is_anchored p"
      by (auto simp: held_anchored_def)
    from af p(1) anchored_from_props(2) obtain j photo where
      j: "j < length clusters" "photo \<in> set (photos (clusters ! j))" "cluster_id p = Some j"
         "path (placement_asset p) = photo_path photo"
      by blast
    from enum[OF ic] ph have k: "fst ic < length clusters" "ph \<in> set (photos (clusters ! fst ic))"
      by simp_all
    have "j = fst ic"
      using distinct_across[of photo_path "map photos clusters" j "fst ic" photo ph]
        dist j(1,2,4) k p(2) by simp
    with j(3) p(3) unassigned[OF ic p(1)] show False by simp
  qed
  from chrono_pass[OF 1(4) inv0 subset_refl dU nh]
  have inv: "chrono_inv uid_of ?A ?U [] s2" .
  have sp: "set pls = set (placements s2)" using 1(6) by simp
  from inv q(1,2) sp obtain ic where ic: "ic \<in> set ?U" "cluster_id q = Some (fst ic)"
    "\<forall>ph \<in> set (photos (snd ic)).
       placement_of uid_of (Some (fst ic)) False (beat_index q) ph \<in> set (placements s2)"
    unfolding chrono_inv_def by blast
  from ic(2) q(3) have kf: "fst ic = k" by simp
  from enum[OF ic(1)] kf have kl: "k < length clusters" "clusters ! k = snd ic" by simp_all
  have all_placed: "\<forall>photo \<in> set (photos (clusters ! k)).
           placement_of uid_of (Some k) False (beat_index q) photo \<in> set pls"
    using ic(3) kf kl(2) sp by simp
  have same_beat: "\<forall>p \<in> set pls. cluster_id p = Some k \<longrightarrow> beat_index p = beat_index q"
  proof (intro ballI impI)
    fix p assume p: "p \<in> set pls" "cluster_id p = Some k"
    have "\<not> is_anchored p"
    proof
      assume a: "is_anchored p"
      with inv p(1) sp have "p \<in> set ?A" unfolding chrono_inv_def by blast
      with unassigned[OF ic(1)] a p(2) kf show False by simp
    qed
    with inv p q(1,2,3) sp show "beat_index p = beat_index q"
      unfolding chrono_inv_def by metis
  qed
  from kl(1) all_placed same_beat show ?thesis by blast
qed


text \<open>
  C7 (cluster co-location), as the claim states it, fails for a cluster satisfied by pin
  requests: the two photos of the cluster are pinned to beats 1 and 2, both pins succeed,
  and the two placements of the one cluster carry the slot indices 0 and 1.
\<close>

theorem pinned_members_at_different_slots:
  "map_photo_clusters_to_beats (\<lambda>p. p) demo_two_pins demo_beats 0 100 0 0
   = Inr ([],
       [placement_of (\<lambda>p. p) (Some 0) True 0 (''a'', 0, Some 1),
        placement_of (\<lambda>p. p) (Some 0) True 1 (''b'', 10, Some 2)])
   \<and> cluster_id (placement_of (\<lambda>p. p) (Some 0) True 0 (''a'', 0, Some 1))
       = cluster_id (placement_of (\<lambda>p. p) (Some 0) True 1 (''b'', 10, Some 2))
   \<and> beat_index (placement_of (\<lambda>p. p) (Some 0) True 0 (''a'', 0, Some 1))
       \<noteq> beat_index (placement_of (\<lambda>p. p) (Some 0) True 1 (''b'', 10, Some 2))"
  by code_simp

text \<open>
  C7, amended. In a run of \<open>map_photo_clusters_to_beats\<close> that is not ended by an error,
  every anchored placement is that of a photo of a cluster, at the slot \<open>a - 1\<close> its own
  pin \<open>a\<close> names (so photos of one cluster with different successful pins sit at
  different slots); and, the photos being distinct files, for every cluster placed by the
  chronological pass (a cluster \<open>k\<close> with a placement that is not anchored) every photo
  of the cluster has a placement, not anchored, at that placement's slot, and all the
  placements of the cluster carry that slot index.
\<close>

theorem chronological_cluster_colocated:
  "map_photo_clusters_to_beats uid_of clusters beats sd ed so eo = Inr (ws, pls) \<longrightarrow>
     (\<forall>p \<in> set pls. is_anchored p \<longrightarrow>
        (\<exists>j photo a. j < length clusters \<and> photo \<in> set (photos (clusters ! j))
           \<and> photo_anchor photo = Some a
           \<and> p = placement_of uid_of (Some j) True (a - 1) photo))
     \<and> (distinct (map photo_path (concat (map photos clusters)))
          \<and> q \<in> set pls \<and> \<not> is_anchored q \<and> cluster_id q = Some k \<longrightarrow>
        k < length clusters
        \<and> (\<forall>photo \<in> set (photos (clusters ! k)).
              placement_of uid_of (Some k) False (beat_index q) photo \<in> set pls)
        \<and> (\<forall>p \<in> set pls. cluster_id p = Some k \<longrightarrow> beat_index p = beat_index q))"
proof (intro impI conjI; (elim conjE)?)
  assume run: "map_photo_clusters_to_beats uid_of clusters beats sd ed so eo = Inr (ws, pls)"
  from clusters_anchored_from[OF run]
  show "\<forall>p \<in> set pls. is_anchored p \<longrightarrow>
        (\<exists>j photo a. j < length clusters \<and> photo \<in> set (photos (clusters ! j))
           \<and> photo_anchor photo = Some a
           \<and> p = placement_of uid_of (Some j) True (a - 1) photo)"
    by (simp only: anchored_from_def)
next
  assume "map_photo_clusters_to_beats uid_of clusters beats sd ed so eo = Inr (ws, pls)"
    "distinct (map photo_path (concat (map photos clusters)))"
    "q \<in> set pls" "\<not> is_anchored q" "cluster_id q = Some k"
  from clusters_chrono[OF this] show "k < length clusters" by blast
next
  assume "map_photo_clusters_to_beats uid_of clusters beats sd ed so eo = Inr (ws, pls)"
    "distinct (map photo_path (concat (map photos clusters)))"
    "q \<in> set pls" "\<not> is_anchored q" "cluster_id q = Some k"
  from clusters_chrono[OF this]
  show "\<forall>photo \<in> set (photos (clusters ! k)).
              placement_of uid_of (Some k) False (beat_index q) photo \<in> set pls"
    by blast
next
  assume "map_photo_clusters_to_beats uid_of clusters beats sd ed so eo = Inr (ws, pls)"
    "distinct (map photo_path (concat (map photos clusters)))"
    "q \<in> set pls" "\<not> is_anchored q" "cluster_id q = Some k"
  from clusters_chrono[OF this]
  show "\<forall>p \<in> set pls. cluster_id p = Some k \<longrightarrow> beat_index p = beat_index q"
    by blast
qed

theorem chronological_cluster_colocated_witness:
  "map_photo_clusters_to_beats (\<lambda>p. p) demo_clusters demo_beats 0 100 0 0
     = Inr ([],
         [placement_of (\<lambda>p. p) (Some 0) False 0 (''a'', 0, None),
          placement_of (\<lambda>p. p) (Some 0) False 0 (''b'', 10, None),
          placement_of (\<lambda>p. p) (Some 1) True 1 (''c'', 90, Some 2)])
   \<and> distinct (map photo_path (concat (map photos demo_clusters)))
   \<and> photos (demo_clusters ! 0) = [(''a'', 0, None), (''b'', 10, None)]
   \<and> placement_of (\<lambda>p. p) (Some 0) False 0 (''a'', 0, None)
       \<in> set [placement_of (\<lambda>p. p) (Some 0) False 0 (''a'', 0, None),
              placement_of (\<lambda>p. p) (Some 0) False 0 (''b'', 10, None),
              placement_of (\<lambda>p. p) (Some 1) True 1 (''c'', 90, Some 2)]
   \<and> placement_of (\<lambda>p. p) (Some 0) False 0 (''b'', 10, None)
       \<in> set [placement_of (\<lambda>p. p) (Some 0) False 0 (''a'', 0, None),
              placement_of (\<lambda>p. p) (Some 0) False 0 (''b'', 10, None),
              placement_of (\<lambda>p. p) (Some 1) True 1 (''c'', 90, Some 2)]
   \<and> (0::nat) < length demo_clusters"
proof -
  let ?q = "placement_of (\<lambda>p. p) (Some 0) False 0 (''a'', 0, None)"
  let ?R = "[placement_of (\<lambda>p. p) (Some 0) False 0 (''a'', 0, None),
          placement_of (\<lambda>p. p) (Some 0) False 0 (''b'', 10, None),
          placement_of (\<lambda>p. p) (Some 1) True 1 (''c'', 90, Some 2)]"
  note t = chronological_cluster_colocated [of "\<lambda>p. p" demo_clusters demo_beats 0 100 0 0
      "[]" ?R ?q 0, THEN mp, OF demo_clusters_result, THEN conjunct2, THEN mp]
  have d: "distinct (map photo_path (concat (map photos demo_clusters)))"
    by (simp add: demo_clusters_def photo_path_def)
  have ph: "photos (demo_clusters ! 0) = [(''a'', 0, None), (''b'', 10, None)]"
    by (simp add: demo_clusters_def)
  have h: "?q \<in> set ?R" "\<not> is_anchored ?q" "cluster_id ?q = Some 0"
    by simp_all
  from t d h have c: "0 < length demo_clusters"
    "\<forall>photo \<in> set (photos (demo_clusters ! 0)).
       placement_of (\<lambda>p. p) (Some 0) False (beat_index ?q) photo \<in> set ?R"
    by blast+
  from c(2) have "placement_of (\<lambda>p. p) (Some 0) False 0 (''a'', 0, None) \<in> set ?R"
    "placement_of (\<lambda>p. p) (Some 0) False 0 (''b'', 10, None) \<in> set ?R"
    unfolding ph by simp_all
  with demo_clusters_result d ph c(1) show ?thesis by blast
qed

end
